theory Spec2Isabelle
  imports Main "HOL-Library.Word"
begin

section \<open>Strings of the source language\<close>

text \<open>
  The program is TypeScript: a string is a sequence of UTF-16 code units, and every string
  operation the program uses (\<^verbatim>\<open>split\<close>, \<^verbatim>\<open>trim\<close>, \<^verbatim>\<open>replace\<close>, \<^verbatim>\<open>includes\<close>,
  \<^verbatim>\<open>startsWith\<close>, \<^verbatim>\<open>===\<close>) works on code units. A string is therefore a list of
  16-bit words. \<open>js\<close> writes an ASCII literal as such a string.
\<close>

type_synonym jschar = "16 word"
type_synonym jsstring = "jschar list"

definition js :: "string \<Rightarrow> jsstring" where
  "js s = map of_char s"

definition PIPE :: jschar where "PIPE = 0x7C"
definition DASH :: jschar where "DASH = 0x2D"
definition COLON :: jschar where "COLON = 0x3A"
definition COMMA :: jschar where "COMMA = 0x2C"
definition QUOTE :: jschar where "QUOTE = 0x22"
definition NEWLINE :: jschar where "NEWLINE = 0x0A"

text \<open>
  The code units that \<^verbatim>\<open>String.prototype.trim\<close> strips and that \<^verbatim>\<open>\s\<close> matches in a
  regular expression: the WhiteSpace and LineTerminator productions of ECMAScript
  (TAB, LF, VT, FF, CR, SPACE, NBSP, U+1680, U+2000..U+200A, U+2028, U+2029, U+202F,
  U+205F, U+3000, U+FEFF).
\<close>

definition isWhiteSpace :: "jschar \<Rightarrow> bool" where
  "isWhiteSpace c =
     (c = 0x09 \<or> c = 0x0A \<or> c = 0x0B \<or> c = 0x0C \<or> c = 0x0D \<or> c = 0x20 \<or> c = 0xA0
      \<or> c = 0x1680 \<or> (0x2000 \<le> c \<and> c \<le> 0x200A) \<or> c = 0x2028 \<or> c = 0x2029
      \<or> c = 0x202F \<or> c = 0x205F \<or> c = 0x3000 \<or> c = 0xFEFF)"

text \<open>\<^verbatim>\<open>s.trim()\<close>: white space is dropped at both ends.\<close>

definition trim :: "jsstring \<Rightarrow> jsstring" where
  "trim s = rev (dropWhile isWhiteSpace (rev (dropWhile isWhiteSpace s)))"

text \<open>
  \<^verbatim>\<open>s.split(c)\<close> for a separator of one code unit: the pieces between the occurrences of
  \<open>c\<close>, so that a string with \<open>n\<close> occurrences gives \<open>n + 1\<close> pieces (the empty string
  gives one empty piece).
\<close>

fun split :: "jschar \<Rightarrow> jsstring \<Rightarrow> jsstring list" where
  "split c [] = [[]]"
| "split c (x # xs) =
     (if x = c then [] # split c xs
      else (case split c xs of
              [] \<Rightarrow> [[x]]
            | piece # pieces \<Rightarrow> (x # piece) # pieces))"

text \<open>\<^verbatim>\<open>s.startsWith(p)\<close>.\<close>

definition startsWith :: "jsstring \<Rightarrow> jsstring \<Rightarrow> bool" where
  "startsWith s p = (take (length p) s = p)"

text \<open>\<^verbatim>\<open>s.includes(c)\<close> for a needle of one code unit.\<close>

definition includes_str :: "jsstring \<Rightarrow> jschar \<Rightarrow> bool" where
  "includes_str s c = (c \<in> set s)"

text \<open>
  \<^verbatim>\<open>xs.join(sep)\<close> on an array of strings: the elements in order with \<open>sep\<close> between
  each two neighbours; nothing before the first or after the last.
\<close>

fun join :: "jsstring \<Rightarrow> jsstring list \<Rightarrow> jsstring" where
  "join sep [] = []"
| "join sep [x] = x"
| "join sep (x # y # ys) = x @ sep @ join sep (y # ys)"

section \<open>The markdown table parser\<close>

text \<open>
  \<^verbatim>\<open>line.match(/^\|[\s\-:]+$/)\<close>: the pattern has no flags, so it is anchored at both ends
  of the line. It matches a line that is one pipe followed by one or more code units that
  are each white space, a dash or a colon. The character class does not contain the pipe.
\<close>

definition matchesSeparator :: "jsstring \<Rightarrow> bool" where
  "matchesSeparator line =
     (case line of
        [] \<Rightarrow> False
      | c # rest \<Rightarrow>
          c = PIPE \<and> rest \<noteq> [] \<and> list_all (\<lambda>x. isWhiteSpace x \<or> x = DASH \<or> x = COLON) rest)"

text \<open>
  \<^verbatim>\<open>line.split('|').map(cell => cell.trim()).filter(cell => cell.length > 0)\<close>
\<close>

definition rowCells :: "jsstring \<Rightarrow> jsstring list" where
  "rowCells line = filter (\<lambda>cell. length cell > 0) (map trim (split PIPE line))"

text \<open>
  The loop of \<^verbatim>\<open>parseMarkdownTable\<close> over the non-blank lines: a line matching the separator
  pattern is skipped; a line starting with a pipe gives a row when it has at least one
  cell; every other line is ignored.
\<close>

fun parseLines :: "jsstring list \<Rightarrow> jsstring list list" where
  "parseLines [] = []"
| "parseLines (line # lines) =
     (if matchesSeparator line then parseLines lines
      else if startsWith line [PIPE] then
        (let cells = rowCells line
         in if length cells > 0 then cells # parseLines lines else parseLines lines)
      else parseLines lines)"

definition parseMarkdownTable :: "jsstring \<Rightarrow> jsstring list list" where
  "parseMarkdownTable markdown =
     parseLines (filter (\<lambda>line. trim line \<noteq> []) (split NEWLINE markdown))"

section \<open>The CSV serializer\<close>

text \<open>\<^verbatim>\<open>cell.replace(/"/g, '""')\<close>: a scan from the left that puts two quotes for each quote.\<close>

fun replaceQuotes :: "jsstring \<Rightarrow> jsstring" where
  "replaceQuotes [] = []"
| "replaceQuotes (c # cs) =
     (if c = QUOTE then QUOTE # QUOTE # replaceQuotes cs else c # replaceQuotes cs)"

definition csvCell :: "jsstring \<Rightarrow> jsstring" where
  "csvCell cell =
     (let escaped = replaceQuotes cell
      in if includes_str escaped COMMA \<or> includes_str escaped QUOTE \<or> includes_str escaped NEWLINE
         then [QUOTE] @ escaped @ [QUOTE]
         else escaped)"

definition rowsToCSV :: "jsstring list list \<Rightarrow> jsstring" where
  "rowsToCSV rows = join [NEWLINE] (map (\<lambda>row. join [COMMA] (map csvCell row)) rows)"

section \<open>The registry\<close>

text \<open>
  \<^verbatim>\<open>MANUFACTURER_POLICIES\<close> is an object literal with seventeen string keys, none of them an
  array index, so \<^verbatim>\<open>Object.entries\<close> and \<^verbatim>\<open>Object.keys\<close> enumerate it in the order the
  literal is written. It is an association list in that order.
\<close>

definition MANUFACTURER_POLICIES :: "(jsstring \<times> jsstring) list" where
  "MANUFACTURER_POLICIES =
     [(js ''abbvie'', js ''https://340besp.com/resources/abbvie/policy.pdf''),
      (js ''alkermes'', js ''https://340besp.com/resources/alkermes/policy.pdf''),
      (js ''amgen'', js ''https://340besp.com/resources/amgen/policy.pdf''),
      (js ''astrazeneca'', js ''https://340besp.com/resources/astrazeneca/policy.pdf''),
      (js ''biogen'', js ''https://340besp.com/resources/biogen/policy.pdf''),
      (js ''bristolmyerssquibb'', js ''https://340besp.com/resources/bristolmyerssquibb/policy.pdf''),
      (js ''elililly'', js ''https://340besp.com/resources/elililly/policy.pdf''),
      (js ''gilead'', js ''https://340besp.com/resources/gilead/policy.pdf''),
      (js ''glaxosmithkline'', js ''https://340besp.com/resources/glaxosmithkline/policy.pdf''),
      (js ''janssen'', js ''https://340besp.com/resources/janssen/policy.pdf''),
      (js ''merck'', js ''https://340besp.com/resources/merck/policy.pdf''),
      (js ''novartis'', js ''https://340besp.com/resources/novartis/policy.pdf''),
      (js ''pfizer'', js ''https://340besp.com/resources/pfizer/policy.pdf''),
      (js ''regeneron'', js ''https://340besp.com/resources/regeneron/policy.pdf''),
      (js ''roche'', js ''https://340besp.com/resources/roche/policy.pdf''),
      (js ''sanofi'', js ''https://340besp.com/resources/sanofi/policy.pdf''),
      (js ''teva'', js ''https://340besp.com/resources/teva/policy.pdf'')]"

section \<open>The external collaborators\<close>

text \<open>
  A value that a call throws. The handler of the sync loop reads it with
  \<^verbatim>\<open>error instanceof Error ? error.message : String(error)\<close>. A thrown value is therefore
  one of three: an \<^verbatim>\<open>Error\<close>, with its message (a string, as the \<^verbatim>\<open>Error\<close> constructor
  makes it); another value that \<^verbatim>\<open>String\<close> converts, with the string it gives; or another
  value for which \<^verbatim>\<open>String(error)\<close> itself throws (an object without a usable
  \<^verbatim>\<open>toString\<close>, for instance), with the value that the conversion throws.
\<close>

datatype thrown = ErrorObject jsstring | OtherValue jsstring | Unconvertible thrown

text \<open>
  \<^verbatim>\<open>error instanceof Error ? error.message : String(error)\<close>: the message (\<open>Inr\<close>), or what
  the conversion throws (\<open>Inl\<close>).
\<close>

fun caughtMessage :: "thrown \<Rightarrow> thrown + jsstring" where
  "caughtMessage (ErrorObject message) = Inr message"
| "caughtMessage (OtherValue str) = Inr str"
| "caughtMessage (Unconvertible t) = Inl t"

type_synonym buffer = "8 word list"

text \<open>The part of a \<^verbatim>\<open>node-fetch\<close> response that \<^verbatim>\<open>downloadPDF\<close> reads.\<close>

record response =
  ok :: bool
  statusText :: jsstring
  arrayBuffer :: "thrown + buffer"

text \<open>
  The network, the PDF decoder, the language model, the clock and the faults of the file
  system are outside the program. Each call either throws (\<open>Inl\<close>) or returns (\<open>Inr\<close>).
  \<open>generateText\<close> is called with a fixed model and a fixed system prompt, so it is a
  function of the prompt alone. The faults:
  \<^item> \<open>mkdirFault\<close>: what \<^verbatim>\<open>fs.mkdir\<close> throws in \<^verbatim>\<open>ensureOutputDir\<close>, if it throws;
  \<^item> \<open>writeFileFault path content\<close>: \<open>None\<close> when \<^verbatim>\<open>fs.writeFile(path, content, 'utf-8')\<close>
    succeeds, and otherwise what it throws together with what the file holds afterwards
    (\<open>None\<close> for no file, or any text: a failed write may leave anything);
  \<^item> \<open>statusFault\<close>: what the write of the status file throws, if it throws.
\<close>

record world =
  fetch :: "jsstring \<Rightarrow> thrown + response"
  pdfParse :: "buffer \<Rightarrow> thrown + jsstring"
  generateText :: "jsstring \<Rightarrow> thrown + jsstring"
  now :: jsstring
  mkdirFault :: "thrown option"
  writeFileFault :: "jsstring \<Rightarrow> jsstring \<Rightarrow> (thrown \<times> jsstring option) option"
  statusFault :: "thrown option"

definition downloadPDF :: "world \<Rightarrow> jsstring \<Rightarrow> thrown + buffer" where
  "downloadPDF w url =
     (case fetch w url of
        Inl error \<Rightarrow> Inl error
      | Inr response \<Rightarrow>
          if \<not> ok response
          then Inl (ErrorObject
                 (js ''Failed to download PDF from '' @ url @ js '': '' @ statusText response))
          else arrayBuffer response)"

definition extractTextFromPDF :: "world \<Rightarrow> buffer \<Rightarrow> thrown + jsstring" where
  "extractTextFromPDF w pdfBuffer = pdfParse w pdfBuffer"

definition callLLM :: "world \<Rightarrow> jsstring \<Rightarrow> thrown + jsstring" where
  "callLLM w policyText =
     generateText w
       (js ''Extract eligibility rules from the following 340B manufacturer policy text:''
        @ [NEWLINE, NEWLINE] @ policyText)"

section \<open>The snapshot store\<close>

text \<open>
  Files are written and read with the encoding \<^verbatim>\<open>'utf-8'\<close>. The encoder puts U+FFFD for
  every surrogate code unit that is not part of a pair (a high surrogate followed by a low
  one), and the decoder gives that U+FFFD back. \<open>readBack s\<close> is the string that a read
  gives for a file written from \<open>s\<close>.
\<close>

definition isHighSurrogate :: "jschar \<Rightarrow> bool" where
  "isHighSurrogate c = (0xD800 \<le> c \<and> c \<le> 0xDBFF)"

definition isLowSurrogate :: "jschar \<Rightarrow> bool" where
  "isLowSurrogate c = (0xDC00 \<le> c \<and> c \<le> 0xDFFF)"

fun readBack :: "jsstring \<Rightarrow> jsstring" where
  "readBack [] = []"
| "readBack [c] = (if isHighSurrogate c \<or> isLowSurrogate c then [0xFFFD] else [c])"
| "readBack (c # d # cs) =
     (if isHighSurrogate c \<and> isLowSurrogate d then c # d # readBack cs
      else if isHighSurrogate c \<or> isLowSurrogate c then 0xFFFD # readBack (d # cs)
      else c # readBack (d # cs))"

text \<open>
  The output directory, as the program sees it: for each file that \<^verbatim>\<open>readExistingCSV\<close> and
  \<^verbatim>\<open>writeCSV\<close> address, by file name inside the directory (\<^verbatim>\<open>join(outputDir, name)\<close> is
  the entry \<open>name\<close>), the string that a read of the file gives; and the object last
  serialised into \<^verbatim>\<open>last_run_status.json\<close>. A read of a file that is not there gives
  \<^verbatim>\<open>null\<close>. \<open>writes\<close> is the trace of the \<^verbatim>\<open>writeCSV\<close> calls made so far, oldest first,
  each with the path and the content it was called with, whether it succeeded or not; the
  program does not read it.
\<close>

record LastRunStatus =
  last_run :: jsstring
  updates :: "jsstring list"

record store =
  files :: "jsstring \<rightharpoonup> jsstring"
  statusFile :: "LastRunStatus option"
  writes :: "(jsstring \<times> jsstring) list"

text \<open>
  \<^verbatim>\<open>ensureOutputDir\<close>: the directory is made when it is not there; \<^verbatim>\<open>fs.mkdir\<close> is outside
  any handler.
\<close>

definition ensureOutputDir :: "world \<Rightarrow> thrown + unit" where
  "ensureOutputDir w = (case mkdirFault w of Some error \<Rightarrow> Inl error | None \<Rightarrow> Inr ())"

definition readExistingCSV :: "store \<Rightarrow> jsstring \<Rightarrow> jsstring option" where
  "readExistingCSV st filePath = files st filePath"

text \<open>
  \<^verbatim>\<open>writeCSV\<close>: the first component is what the call throws, if it throws; the second is
  the store after the call. A write that succeeds leaves the file reading back as
  \<open>readBack content\<close>; a write that fails leaves what the fault says.
\<close>

definition writeCSV :: "world \<Rightarrow> store \<Rightarrow> jsstring \<Rightarrow> jsstring \<Rightarrow> thrown option \<times> store" where
  "writeCSV w st filePath content =
     (case writeFileFault w filePath content of
        None \<Rightarrow>
          (None, st\<lparr>files := (files st)(filePath \<mapsto> readBack content),
                    writes := writes st @ [(filePath, content)]\<rparr>)
      | Some (error, left) \<Rightarrow>
          (Some error, st\<lparr>files := (files st)(filePath := left),
                          writes := writes st @ [(filePath, content)]\<rparr>))"

definition writeLastRunStatus :: "world \<Rightarrow> store \<Rightarrow> LastRunStatus \<Rightarrow> thrown + store" where
  "writeLastRunStatus w st status =
     (case statusFault w of
        Some error \<Rightarrow> Inl error
      | None \<Rightarrow> Inr (st\<lparr>statusFile := Some status\<rparr>))"

section \<open>The sync orchestrator\<close>

text \<open>
  The interfaces \<^verbatim>\<open>ManufacturerDetail\<close> and \<^verbatim>\<open>SyncResult\<close>. The fields of a detail carry
  the prefix \<open>detail_\<close>, since \<open>id\<close> is the identity function of HOL and \<open>updated\<close> is
  also a field of the result. An optional field that is not set is \<open>None\<close>; the counts
  are natural numbers.
\<close>

record ManufacturerDetail =
  detail_id :: jsstring
  detail_updated :: bool
  detail_name :: "jsstring option"
  detail_rulesCount :: "int option"
  detail_error :: "jsstring option"

record SyncResult =
  totalManufacturers :: nat
  updated :: nat
  unchanged :: nat
  details :: "ManufacturerDetail list"

text \<open>The variables of \<^verbatim>\<open>execute\<close> that the loop changes, and the store.\<close>

record loop_state =
  disk :: store
  loop_details :: "ManufacturerDetail list"
  updatedCount :: nat
  unchangedCount :: nat
  updatedManufacturers :: "jsstring list"

definition csvPath :: "jsstring \<Rightarrow> jsstring" where
  "csvPath manufacturerKey = manufacturerKey @ js ''_340b_rules.csv''"

definition NO_ROWS :: jsstring where
  "NO_ROWS = js ''No rows extracted from markdown table''"

text \<open>
  The \<^verbatim>\<open>catch\<close> block followed by \<^verbatim>\<open>details.push(detail)\<close>, entered with the detail and
  the store as they are when the error is thrown. The conversion of the error to a message
  is not guarded: when it throws, the iteration and with it \<^verbatim>\<open>execute\<close> end with that
  value (\<open>Inl\<close>).
\<close>

definition caught ::
  "loop_state \<Rightarrow> ManufacturerDetail \<Rightarrow> store \<Rightarrow> thrown \<Rightarrow> thrown + loop_state" where
  "caught s detail st error =
     (case caughtMessage error of
        Inl t \<Rightarrow> Inl t
      | Inr message \<Rightarrow>
          Inr (s\<lparr>disk := st,
                 loop_details := loop_details s @ [detail\<lparr>detail_error := Some message\<rparr>],
                 unchangedCount := unchangedCount s + 1\<rparr>))"

text \<open>
  One iteration of the loop over the registry. The three awaited calls and the write of the
  snapshot are inside the \<^verbatim>\<open>try\<close>: when one of them throws, the handler records the
  message and counts the manufacturer as unchanged; \<^verbatim>\<open>rulesCount\<close> is already set when
  the write throws. The empty table leaves the iteration with \<^verbatim>\<open>continue\<close>, after pushing
  the detail and before any counter is touched.
\<close>

definition processManufacturer ::
  "world \<Rightarrow> loop_state \<Rightarrow> jsstring \<times> jsstring \<Rightarrow> thrown + loop_state" where
  "processManufacturer w s entry =
     (let manufacturerKey = fst entry;
          pdfUrl = snd entry;
          detail = \<lparr>detail_id = manufacturerKey, detail_updated = False, detail_name = None,
                    detail_rulesCount = None, detail_error = None\<rparr>
      in case downloadPDF w pdfUrl of
           Inl error \<Rightarrow> caught s detail (disk s) error
         | Inr pdfBuffer \<Rightarrow>
        (case extractTextFromPDF w pdfBuffer of
           Inl error \<Rightarrow> caught s detail (disk s) error
         | Inr policyText \<Rightarrow>
        (case callLLM w policyText of
           Inl error \<Rightarrow> caught s detail (disk s) error
         | Inr markdownTable \<Rightarrow>
        (let rows = parseMarkdownTable markdownTable
         in if length rows = 0
            then Inr (s\<lparr>loop_details :=
                           loop_details s @ [detail\<lparr>detail_error := Some NO_ROWS\<rparr>]\<rparr>)
            else
              (let detail = detail\<lparr>detail_rulesCount := Some (int (length rows) - 1)\<rparr>;
                   csvContent = rowsToCSV rows;
                   existingCSV = readExistingCSV (disk s) (csvPath manufacturerKey)
               in if existingCSV = None \<or> existingCSV \<noteq> Some csvContent
                  then (case writeCSV w (disk s) (csvPath manufacturerKey) csvContent of
                          (Some error, st) \<Rightarrow> caught s detail st error
                        | (None, st) \<Rightarrow>
                            Inr (s\<lparr>disk := st,
                                   loop_details :=
                                     loop_details s @ [detail\<lparr>detail_updated := True\<rparr>],
                                   updatedCount := updatedCount s + 1,
                                   updatedManufacturers :=
                                     updatedManufacturers s @ [manufacturerKey]\<rparr>))
                  else Inr (s\<lparr>loop_details :=
                                 loop_details s @ [detail\<lparr>detail_updated := False\<rparr>],
                               unchangedCount := unchangedCount s + 1\<rparr>))))))"

text \<open>The loop: it ends with the first iteration that ends with a thrown value.\<close>

fun syncLoop ::
  "world \<Rightarrow> (jsstring \<times> jsstring) list \<Rightarrow> loop_state \<Rightarrow> thrown + loop_state" where
  "syncLoop w [] s = Inr s"
| "syncLoop w (entry # entries) s =
     (case processManufacturer w s entry of
        Inl t \<Rightarrow> Inl t
      | Inr s' \<Rightarrow> syncLoop w entries s')"

text \<open>
  \<^verbatim>\<open>execute\<close>: the output directory, the loop over
  \<^verbatim>\<open>Object.entries(MANUFACTURER_POLICIES)\<close>, then the status file, then the result. The
  run either returns the result, with the store it leaves (\<open>Inr\<close>), or rejects with a
  thrown value (\<open>Inl\<close>); the model does not say what the directory holds after a run that
  rejects.
\<close>

definition execute :: "world \<Rightarrow> store \<Rightarrow> thrown + SyncResult \<times> store" where
  "execute w st =
     (case ensureOutputDir w of
        Inl t \<Rightarrow> Inl t
      | Inr outputDir \<Rightarrow>
     (case syncLoop w MANUFACTURER_POLICIES
             \<lparr>disk = st, loop_details = [], updatedCount = 0, unchangedCount = 0,
              updatedManufacturers = []\<rparr> of
        Inl t \<Rightarrow> Inl t
      | Inr s \<Rightarrow>
     (let lastRunStatus = \<lparr>last_run = now w, updates = updatedManufacturers s\<rparr>
      in case writeLastRunStatus w (disk s) lastRunStatus of
           Inl t \<Rightarrow> Inl t
         | Inr st' \<Rightarrow>
             Inr (\<lparr>totalManufacturers = length (map fst MANUFACTURER_POLICIES),
                   updated = updatedCount s,
                   unchanged = unchangedCount s,
                   details = loop_details s\<rparr>, st'))))"

section \<open>Notions used to state the properties\<close>

text \<open>
  The four steps of an iteration that come before the comparison with the stored snapshot
  (fetch, extract, generate, parse), as one function of the URL: the value thrown by the
  first step that throws, or the parsed rows. It is \<open>processManufacturer\<close> up to the call of
  \<open>parseMarkdownTable\<close>, with nothing added.
\<close>

definition extractRows :: "world \<Rightarrow> jsstring \<Rightarrow> thrown + jsstring list list" where
  "extractRows w pdfUrl =
     (case downloadPDF w pdfUrl of
        Inl error \<Rightarrow> Inl error
      | Inr pdfBuffer \<Rightarrow>
     (case extractTextFromPDF w pdfBuffer of
        Inl error \<Rightarrow> Inl error
      | Inr policyText \<Rightarrow>
     (case callLLM w policyText of
        Inl error \<Rightarrow> Inl error
      | Inr markdownTable \<Rightarrow> Inr (parseMarkdownTable markdownTable))))"

text \<open>The CSV text that an entry's pipeline produces (empty when the pipeline throws).\<close>

definition csvOf :: "world \<Rightarrow> jsstring \<Rightarrow> jsstring" where
  "csvOf w pdfUrl = (case extractRows w pdfUrl of Inl e \<Rightarrow> [] | Inr rows \<Rightarrow> rowsToCSV rows)"

text \<open>
  An entry of the registry produces a change against the stored files \<open>fs\<close>: its pipeline
  gives at least one row, and the CSV of these rows is not what the entry's file holds
  (the file is absent or differs). These are the entries for which \<open>writeCSV\<close> is called.
\<close>

definition producesChange :: "world \<Rightarrow> (jsstring \<rightharpoonup> jsstring) \<Rightarrow> jsstring \<times> jsstring \<Rightarrow> bool" where
  "producesChange w fs entry =
     (case extractRows w (snd entry) of
        Inl e \<Rightarrow> False
      | Inr rows \<Rightarrow> rows \<noteq> [] \<and> fs (csvPath (fst entry)) \<noteq> Some (rowsToCSV rows))"

text \<open>The fault of the write of an entry's snapshot, if that write fails.\<close>

definition snapshotFault :: "world \<Rightarrow> jsstring \<times> jsstring \<Rightarrow> (thrown \<times> jsstring option) option" where
  "snapshotFault w entry = writeFileFault w (csvPath (fst entry)) (csvOf w (snd entry))"

text \<open>An entry that produces a change and whose snapshot is written without a fault.\<close>

definition isUpdated :: "world \<Rightarrow> (jsstring \<rightharpoonup> jsstring) \<Rightarrow> jsstring \<times> jsstring \<Rightarrow> bool" where
  "isUpdated w fs entry = (producesChange w fs entry \<and> snapshotFault w entry = None)"

text \<open>
  An entry that the handler or the comparison counts as unchanged: its pipeline throws, or
  gives rows whose CSV is the stored one, or the write of its snapshot fails.
\<close>

definition countedUnchanged :: "world \<Rightarrow> (jsstring \<rightharpoonup> jsstring) \<Rightarrow> jsstring \<times> jsstring \<Rightarrow> bool" where
  "countedUnchanged w fs entry =
     (case extractRows w (snd entry) of
        Inl e \<Rightarrow> True
      | Inr rows \<Rightarrow>
          rows \<noteq> [] \<and>
          (fs (csvPath (fst entry)) = Some (rowsToCSV rows) \<or> snapshotFault w entry \<noteq> None))"

text \<open>
  The error that reaches the handler in an entry's iteration, if one does: what the
  pipeline throws, or what the write of the snapshot throws.
\<close>

definition handled :: "world \<Rightarrow> (jsstring \<rightharpoonup> jsstring) \<Rightarrow> jsstring \<times> jsstring \<Rightarrow> thrown option" where
  "handled w fs entry =
     (case extractRows w (snd entry) of
        Inl e \<Rightarrow> Some e
      | Inr rows \<Rightarrow>
          if producesChange w fs entry
          then (case snapshotFault w entry of None \<Rightarrow> None | Some (e, left) \<Rightarrow> Some e)
          else None)"

text \<open>An entry whose iteration ends the run: the handler cannot convert the error.\<close>

definition aborts :: "world \<Rightarrow> (jsstring \<rightharpoonup> jsstring) \<Rightarrow> jsstring \<times> jsstring \<Rightarrow> bool" where
  "aborts w fs entry =
     (case handled w fs entry of None \<Rightarrow> False | Some e \<Rightarrow> isl (caughtMessage e))"

text \<open>The message that the handler records for an error it can convert.\<close>

definition messageOf :: "thrown \<Rightarrow> jsstring" where
  "messageOf e = (case caughtMessage e of Inl t \<Rightarrow> [] | Inr message \<Rightarrow> message)"

text \<open>The two shapes of a detail: after an error before the parse, and after a parse with rows.\<close>

definition failedDetail :: "jsstring \<Rightarrow> jsstring \<Rightarrow> ManufacturerDetail" where
  "failedDetail key msg =
     \<lparr>detail_id = key, detail_updated = False, detail_name = None,
      detail_rulesCount = None, detail_error = Some msg\<rparr>"

definition parsedDetail ::
  "jsstring \<Rightarrow> bool \<Rightarrow> jsstring list list \<Rightarrow> jsstring option \<Rightarrow> ManufacturerDetail" where
  "parsedDetail key upd rows err =
     \<lparr>detail_id = key, detail_updated = upd, detail_name = None,
      detail_rulesCount = Some (int (length rows) - 1), detail_error = err\<rparr>"

text \<open>The detail of an entry whose iteration does not end the run.\<close>

definition detailFor :: "world \<Rightarrow> (jsstring \<rightharpoonup> jsstring) \<Rightarrow> jsstring \<times> jsstring \<Rightarrow> ManufacturerDetail" where
  "detailFor w fs entry =
     (case extractRows w (snd entry) of
        Inl e \<Rightarrow> failedDetail (fst entry) (messageOf e)
      | Inr rows \<Rightarrow>
          if rows = [] then failedDetail (fst entry) NO_ROWS
          else if fs (csvPath (fst entry)) \<noteq> Some (rowsToCSV rows)
          then (case snapshotFault w entry of
                  None \<Rightarrow> parsedDetail (fst entry) True rows None
                | Some (e, left) \<Rightarrow> parsedDetail (fst entry) False rows (Some (messageOf e)))
          else parsedDetail (fst entry) False rows None)"

text \<open>What an entry's file holds after the entry's iteration.\<close>

definition fileAfter :: "world \<Rightarrow> (jsstring \<rightharpoonup> jsstring) \<Rightarrow> jsstring \<times> jsstring \<Rightarrow> jsstring option" where
  "fileAfter w fs entry =
     (if producesChange w fs entry
      then (case snapshotFault w entry of
              None \<Rightarrow> Some (readBack (csvOf w (snd entry)))
            | Some (e, left) \<Rightarrow> left)
      else fs (csvPath (fst entry)))"

text \<open>
  The state of the loop after an entry's iteration, when the iteration does not end the
  run, and after the iterations of a list of entries.
\<close>

definition stepState :: "world \<Rightarrow> loop_state \<Rightarrow> jsstring \<times> jsstring \<Rightarrow> loop_state" where
  "stepState w s entry =
     s\<lparr>disk := (disk s)
          \<lparr>files := (files (disk s))(csvPath (fst entry) := fileAfter w (files (disk s)) entry),
           writes := writes (disk s) @
             (if producesChange w (files (disk s)) entry
              then [(csvPath (fst entry), csvOf w (snd entry))] else [])\<rparr>,
       loop_details := loop_details s @ [detailFor w (files (disk s)) entry],
       updatedCount := updatedCount s + (if isUpdated w (files (disk s)) entry then 1 else 0),
       unchangedCount :=
         unchangedCount s + (if countedUnchanged w (files (disk s)) entry then 1 else 0),
       updatedManufacturers :=
         updatedManufacturers s @ (if isUpdated w (files (disk s)) entry then [fst entry] else [])\<rparr>"

fun loopState :: "world \<Rightarrow> (jsstring \<times> jsstring) list \<Rightarrow> loop_state \<Rightarrow> loop_state" where
  "loopState w [] s = s"
| "loopState w (entry # entries) s = loopState w entries (stepState w s entry)"

text \<open>
  The \<^verbatim>\<open>writeCSV\<close> calls between two states of the store: what was appended to the trace.
\<close>

definition newWrites :: "store \<Rightarrow> store \<Rightarrow> (jsstring \<times> jsstring) list" where
  "newWrites st st' = drop (length (writes st)) (writes st')"

subsection \<open>The serializer, in the words of the specification\<close>

text \<open>Every quote of the cell is doubled.\<close>

definition doubleQuotes :: "jsstring \<Rightarrow> jsstring" where
  "doubleQuotes cell = concat (map (\<lambda>c. if c = QUOTE then [QUOTE, QUOTE] else [c]) cell)"

text \<open>
  The cell is wrapped in quotes exactly when the escaped cell contains a comma, a quote or a
  newline, and is left as it is otherwise.
\<close>

definition csvCell_spec :: "jsstring \<Rightarrow> jsstring" where
  "csvCell_spec cell =
     (if COMMA \<in> set (doubleQuotes cell) \<or> QUOTE \<in> set (doubleQuotes cell)
         \<or> NEWLINE \<in> set (doubleQuotes cell)
      then QUOTE # doubleQuotes cell @ [QUOTE]
      else doubleQuotes cell)"

text \<open>
  The elements with a separator between them and none at the end: each element followed by
  the separator, and the last separator taken away.
\<close>

definition separated :: "jschar \<Rightarrow> jsstring list \<Rightarrow> jsstring" where
  "separated sep xs = butlast (concat (map (\<lambda>x. x @ [sep]) xs))"

definition rowsToCSV_spec :: "jsstring list list \<Rightarrow> jsstring" where
  "rowsToCSV_spec rows =
     separated NEWLINE (map (\<lambda>row. separated COMMA (map csvCell_spec row)) rows)"

subsection \<open>A reader for the CSV text\<close>

text \<open>
  Modelled from the spec: the repository has no CSV reader; this is the reader the round-trip
  property speaks of. It splits the text on commas and newlines and respects the quoting
  rule: a field that starts with a quote runs to the next quote that is not doubled, may
  contain commas and newlines, and a doubled quote in it stands for one quote. The result
  is the list of rows; the field being read is the first field of the first row.
\<close>

datatype csv_mode = FieldStart | InUnquoted | InQuoted | AfterQuote

fun addChar :: "jschar \<Rightarrow> jsstring list list \<Rightarrow> jsstring list list" where
  "addChar c [] = [[[c]]]"
| "addChar c ([] # rows) = [[c]] # rows"
| "addChar c ((f # fs) # rows) = ((c # f) # fs) # rows"

fun newField :: "jsstring list list \<Rightarrow> jsstring list list" where
  "newField [] = [[[]]]"
| "newField (row # rows) = ([] # row) # rows"

definition newRow :: "jsstring list list \<Rightarrow> jsstring list list" where
  "newRow rows = [[]] # rows"

fun readCSV :: "csv_mode \<Rightarrow> jsstring \<Rightarrow> jsstring list list" where
  "readCSV mode [] = [[[]]]"
| "readCSV FieldStart (c # cs) =
     (if c = QUOTE then readCSV InQuoted cs
      else if c = COMMA then newField (readCSV FieldStart cs)
      else if c = NEWLINE then newRow (readCSV FieldStart cs)
      else addChar c (readCSV InUnquoted cs))"
| "readCSV InUnquoted (c # cs) =
     (if c = COMMA then newField (readCSV FieldStart cs)
      else if c = NEWLINE then newRow (readCSV FieldStart cs)
      else addChar c (readCSV InUnquoted cs))"
| "readCSV InQuoted (c # cs) =
     (if c = QUOTE then readCSV AfterQuote cs
      else addChar c (readCSV InQuoted cs))"
| "readCSV AfterQuote (c # cs) =
     (if c = QUOTE then addChar QUOTE (readCSV InQuoted cs)
      else if c = COMMA then newField (readCSV FieldStart cs)
      else if c = NEWLINE then newRow (readCSV FieldStart cs)
      else addChar c (readCSV InUnquoted cs))"

definition parseCSV :: "jsstring \<Rightarrow> jsstring list list" where
  "parseCSV text = readCSV FieldStart text"

section \<open>Concrete worlds and stores\<close>

definition st_empty :: store where
  "st_empty = \<lparr>files = Map.empty, statusFile = None, writes = []\<rparr>"

text \<open>A world in which every fetch rejects with an \<^verbatim>\<open>Error\<close> whose message is empty.\<close>

definition w_silent :: world where
  "w_silent =
     \<lparr>fetch = (\<lambda>url. Inl (ErrorObject [])),
      pdfParse = (\<lambda>pdfBuffer. Inr []),
      generateText = (\<lambda>prompt. Inr []),
      now = js ''2026-01-01T00:00:00.000Z'',
      mkdirFault = None,
      writeFileFault = (\<lambda>path content. None),
      statusFault = None\<rparr>"

definition TABLE :: jsstring where
  "TABLE = js ''| a | b |\<newline>|---|---|\<newline>| 1 | 2 |''"

text \<open>
  A world with one manufacturer of each kind: the fetch for the first entry rejects, the
  second gets a response that is not ok, the document of the third has no table in the
  model's reply, and every other document gives the table \<open>TABLE\<close>. No write fails.
\<close>

definition w_demo :: world where
  "w_demo =
     \<lparr>fetch = (\<lambda>url.
        if url = js ''https://340besp.com/resources/abbvie/policy.pdf''
        then Inl (ErrorObject (js ''socket hang up''))
        else if url = js ''https://340besp.com/resources/alkermes/policy.pdf''
        then Inr \<lparr>ok = False, statusText = js ''Not Found'', arrayBuffer = Inr []\<rparr>
        else if url = js ''https://340besp.com/resources/amgen/policy.pdf''
        then Inr \<lparr>ok = True, statusText = js ''OK'', arrayBuffer = Inr [0]\<rparr>
        else Inr \<lparr>ok = True, statusText = js ''OK'', arrayBuffer = Inr [1]\<rparr>),
      pdfParse = (\<lambda>pdfBuffer. Inr (if pdfBuffer = [0] then js ''cover'' else js ''policy'')),
      generateText = (\<lambda>prompt.
        Inr (if drop (length prompt - 5) prompt = js ''cover''
             then js ''No rules found.'' else TABLE)),
      now = js ''2026-01-01T00:00:00.000Z'',
      mkdirFault = None,
      writeFileFault = (\<lambda>path content. None),
      statusFault = None\<rparr>"

text \<open>A store in which the snapshot of the fifth entry is already the CSV of \<open>TABLE\<close>.\<close>

definition st_demo :: store where
  "st_demo =
     \<lparr>files = [csvPath (js ''biogen'') \<mapsto> js ''a,b\<newline>---,---\<newline>1,2''],
      statusFile = None, writes = []\<rparr>"

text \<open>
  The world \<open>w_demo\<close>, except that the write of the fourth entry's snapshot fails and
  leaves no file.
\<close>

definition w_fault :: world where
  "w_fault =
     w_demo\<lparr>writeFileFault := (\<lambda>path content.
        if path = csvPath (js ''astrazeneca'')
        then Some (ErrorObject (js ''EISDIR: illegal operation on a directory, open''), None)
        else None)\<rparr>"

text \<open>
  A world in which the model's reply for every document is a table with one cell, and the
  cell is a high surrogate without its low surrogate. No call throws.
\<close>

definition w_surrogate :: world where
  "w_surrogate =
     \<lparr>fetch = (\<lambda>url. Inr \<lparr>ok = True, statusText = js ''OK'', arrayBuffer = Inr []\<rparr>),
      pdfParse = (\<lambda>pdfBuffer. Inr (js ''policy'')),
      generateText = (\<lambda>prompt. Inr [PIPE, 0xD800, PIPE]),
      now = js ''2026-01-01T00:00:00.000Z'',
      mkdirFault = None,
      writeFileFault = (\<lambda>path content. None),
      statusFault = None\<rparr>"

text \<open>
  A world in which the fetch for every entry rejects with a value that is not an
  \<^verbatim>\<open>Error\<close> and that \<^verbatim>\<open>String\<close> cannot convert.
\<close>

definition w_unconvertible :: world where
  "w_unconvertible =
     w_silent\<lparr>fetch := (\<lambda>url.
        Inl (Unconvertible (ErrorObject (js ''Cannot convert object to primitive value''))))\<rparr>"

section \<open>The parser on the example table\<close>

text \<open>A line that matches the separator pattern has no pipe after the first one.\<close>

lemma matchesSeparator_one_pipe:
  "matchesSeparator line \<Longrightarrow> PIPE \<notin> set (tl line)"
proof (cases line)
  case Nil
  then show ?thesis by simp
next
  case (Cons c rest)
  assume "matchesSeparator line"
  with Cons have "\<forall>x \<in> set rest. isWhiteSpace x \<or> x = DASH \<or> x = COLON"
    by (simp add: matchesSeparator_def list_all_iff)
  moreover have "\<not> (isWhiteSpace PIPE \<or> PIPE = DASH \<or> PIPE = COLON)"
    by (simp add: isWhiteSpace_def PIPE_def DASH_def COLON_def)
  ultimately have "PIPE \<notin> set rest" by blast
  with Cons show ?thesis by simp
qed

text \<open>
  C1. On the input \<^verbatim>\<open>| a | b |\n|---|---|\n| 1 | 2 |\<close> the parser gives three rows, not two:
  the line \<^verbatim>\<open>|---|---|\<close> does not match the separator pattern, whose character class
  has no pipe, so the line is split like a data row and gives the two cells \<^verbatim>\<open>---\<close>.
\<close>

theorem separator_line_is_kept:
  "parseMarkdownTable (js ''| a | b |\<newline>|---|---|\<newline>| 1 | 2 |'') =
     [[js ''a'', js ''b''], [js ''---'', js ''---''], [js ''1'', js ''2'']]
   \<and> matchesSeparator (js ''|---|---|'') = False"
  by code_simp

section \<open>One iteration of the loop\<close>

lemma processManufacturer_extractRows:
  "processManufacturer w s (key, url) =
     (case extractRows w url of
        Inl e \<Rightarrow>
          caught s \<lparr>detail_id = key, detail_updated = False, detail_name = None,
                    detail_rulesCount = None, detail_error = None\<rparr> (disk s) e
      | Inr rows \<Rightarrow>
          if rows = [] then Inr (s\<lparr>loop_details := loop_details s @ [failedDetail key NO_ROWS]\<rparr>)
          else if files (disk s) (csvPath key) \<noteq> Some (rowsToCSV rows)
          then (case writeFileFault w (csvPath key) (rowsToCSV rows) of
                  None \<Rightarrow>
                    Inr (s\<lparr>disk := (disk s)
                              \<lparr>files := (files (disk s))(csvPath key \<mapsto> readBack (rowsToCSV rows)),
                               writes := writes (disk s) @ [(csvPath key, rowsToCSV rows)]\<rparr>,
                           loop_details := loop_details s @ [parsedDetail key True rows None],
                           updatedCount := updatedCount s + 1,
                           updatedManufacturers := updatedManufacturers s @ [key]\<rparr>)
                | Some (e, left) \<Rightarrow>
                    caught s (parsedDetail key False rows None)
                      ((disk s)\<lparr>files := (files (disk s))(csvPath key := left),
                                writes := writes (disk s) @ [(csvPath key, rowsToCSV rows)]\<rparr>) e)
          else Inr (s\<lparr>loop_details := loop_details s @ [parsedDetail key False rows None],
                      unchangedCount := unchangedCount s + 1\<rparr>))"
  by (simp add: processManufacturer_def extractRows_def failedDetail_def parsedDetail_def
        Let_def readExistingCSV_def writeCSV_def split: sum.split option.split prod.split)

lemma caught_Inr:
  "caughtMessage e = Inr msg \<Longrightarrow>
   caught s d st e =
     Inr (s\<lparr>disk := st, loop_details := loop_details s @ [d\<lparr>detail_error := Some msg\<rparr>],
            unchangedCount := unchangedCount s + 1\<rparr>)"
  by (simp add: caught_def)

lemma caught_Inl: "caughtMessage e = Inl t \<Longrightarrow> caught s d st e = Inl t"
  by (simp add: caught_def)

lemma messageOf_Inr: "caughtMessage e = Inr msg \<Longrightarrow> messageOf e = msg"
  by (simp add: messageOf_def)

lemma step_thrown:
  assumes "extractRows w url = Inl e" and "caughtMessage e = Inr msg"
  shows "processManufacturer w s (key, url) =
           Inr (s\<lparr>loop_details := loop_details s @ [failedDetail key msg],
                  unchangedCount := unchangedCount s + 1\<rparr>)"
  by (simp add: processManufacturer_extractRows assms caught_Inr[OF assms(2)] failedDetail_def)

lemma step_thrown_unconvertible:
  assumes "extractRows w url = Inl e" and "caughtMessage e = Inl t"
  shows "processManufacturer w s (key, url) = Inl t"
  by (simp add: processManufacturer_extractRows assms caught_Inl[OF assms(2)])

lemma step_empty:
  assumes "extractRows w url = Inr []"
  shows "processManufacturer w s (key, url) =
           Inr (s\<lparr>loop_details := loop_details s @ [failedDetail key NO_ROWS]\<rparr>)"
  by (simp add: processManufacturer_extractRows assms)

lemma step_changed:
  assumes "extractRows w url = Inr rows" and "rows \<noteq> []"
    and "files (disk s) (csvPath key) \<noteq> Some (rowsToCSV rows)"
    and "writeFileFault w (csvPath key) (rowsToCSV rows) = None"
  shows "processManufacturer w s (key, url) =
           Inr (s\<lparr>disk := (disk s)
                     \<lparr>files := (files (disk s))(csvPath key \<mapsto> readBack (rowsToCSV rows)),
                      writes := writes (disk s) @ [(csvPath key, rowsToCSV rows)]\<rparr>,
                  loop_details := loop_details s @ [parsedDetail key True rows None],
                  updatedCount := updatedCount s + 1,
                  updatedManufacturers := updatedManufacturers s @ [key]\<rparr>)"
  by (simp add: processManufacturer_extractRows assms)

lemma step_write_failed:
  assumes "extractRows w url = Inr rows" and "rows \<noteq> []"
    and "files (disk s) (csvPath key) \<noteq> Some (rowsToCSV rows)"
    and "writeFileFault w (csvPath key) (rowsToCSV rows) = Some (e, left)"
    and "caughtMessage e = Inr msg"
  shows "processManufacturer w s (key, url) =
           Inr (s\<lparr>disk := (disk s)
                     \<lparr>files := (files (disk s))(csvPath key := left),
                      writes := writes (disk s) @ [(csvPath key, rowsToCSV rows)]\<rparr>,
                  loop_details := loop_details s @ [parsedDetail key False rows (Some msg)],
                  unchangedCount := unchangedCount s + 1\<rparr>)"
  by (simp add: processManufacturer_extractRows assms caught_Inr[OF assms(5)] parsedDetail_def)

lemma step_same:
  assumes "extractRows w url = Inr rows" and "rows \<noteq> []"
    and "files (disk s) (csvPath key) = Some (rowsToCSV rows)"
  shows "processManufacturer w s (key, url) =
           Inr (s\<lparr>loop_details := loop_details s @ [parsedDetail key False rows None],
                  unchangedCount := unchangedCount s + 1\<rparr>)"
  by (simp add: processManufacturer_extractRows assms)

text \<open>
  An iteration either ends the run, when the handler cannot convert the error, or leaves
  the state \<open>stepState\<close>.
\<close>

lemma step_Inr:
  assumes "\<not> aborts w (files (disk s)) e"
  shows "processManufacturer w s e = Inr (stepState w s e)"
proof (cases e)
  case (Pair key url)
  show ?thesis
  proof (cases "extractRows w url")
    case (Inl err)
    with assms Pair obtain msg where m: "caughtMessage err = Inr msg"
      by (cases "caughtMessage err") (auto simp: aborts_def handled_def)
    show ?thesis
      unfolding Pair step_thrown[OF Inl m]
      by (simp add: stepState_def fileAfter_def producesChange_def isUpdated_def
            countedUnchanged_def detailFor_def Inl messageOf_Inr[OF m])
  next
    case (Inr rows)
    show ?thesis
    proof (cases "rows = []")
      case True
      with Inr show ?thesis
        unfolding Pair
        by (simp add: step_empty stepState_def fileAfter_def producesChange_def isUpdated_def
              countedUnchanged_def detailFor_def)
    next
      case ne: False
      show ?thesis
      proof (cases "files (disk s) (csvPath key) = Some (rowsToCSV rows)")
        case True
        show ?thesis
          unfolding Pair step_same[OF Inr ne True]
          by (simp add: stepState_def fileAfter_def producesChange_def isUpdated_def
                countedUnchanged_def detailFor_def Inr ne True fun_upd_idem)
      next
        case diff: False
        show ?thesis
        proof (cases "writeFileFault w (csvPath key) (rowsToCSV rows)")
          case None
          show ?thesis
            unfolding Pair step_changed[OF Inr ne diff None]
            using diff
            by (simp add: stepState_def fileAfter_def producesChange_def isUpdated_def
                  countedUnchanged_def detailFor_def snapshotFault_def csvOf_def Inr ne None)
        next
          case (Some fault)
          obtain err left where f: "fault = (err, left)" by (cases fault)
          from assms Pair Inr ne diff Some f obtain msg where m: "caughtMessage err = Inr msg"
            by (cases "caughtMessage err")
               (auto simp: aborts_def handled_def producesChange_def snapshotFault_def csvOf_def)
          show ?thesis
            unfolding Pair step_write_failed[OF Inr ne diff Some[unfolded f] m]
            using diff
            by (simp add: stepState_def fileAfter_def producesChange_def isUpdated_def
                  countedUnchanged_def detailFor_def snapshotFault_def csvOf_def Inr ne Some f
                  messageOf_Inr[OF m])
        qed
      qed
    qed
  qed
qed

lemma step_Inl:
  assumes "aborts w (files (disk s)) e"
  shows "isl (processManufacturer w s e)"
proof (cases e)
  case (Pair key url)
  from assms obtain err t where h: "handled w (files (disk s)) e = Some err"
      and c: "caughtMessage err = Inl t"
    by (auto simp: aborts_def isl_def split: option.splits)
  show ?thesis
  proof (cases "extractRows w url")
    case (Inl e0)
    with h Pair have "e0 = err" by (simp add: handled_def)
    with Inl c Pair show ?thesis by (simp add: step_thrown_unconvertible)
  next
    case (Inr rows)
    with h Pair have pc: "producesChange w (files (disk s)) (key, url)"
      and sf: "\<exists>left. snapshotFault w (key, url) = Some (err, left)"
      by (auto simp: handled_def split: if_splits option.splits)
    from pc Inr have ne: "rows \<noteq> []"
      and diff: "files (disk s) (csvPath key) \<noteq> Some (rowsToCSV rows)"
      by (simp_all add: producesChange_def)
    from sf Inr obtain left where "writeFileFault w (csvPath key) (rowsToCSV rows) = Some (err, left)"
      by (auto simp: snapshotFault_def csvOf_def)
    with Inr ne diff c Pair show ?thesis
      by (simp add: processManufacturer_extractRows caught_Inl[OF c])
  qed
qed

lemma csvPath_inject: "csvPath k = csvPath k' \<longleftrightarrow> k = k'"
  by (simp add: csvPath_def)

lemma step_files_other:
  "p \<noteq> csvPath (fst e) \<Longrightarrow> files (disk (stepState w s e)) p = files (disk s) p"
  by (simp add: stepState_def)

lemma producesChange_cong:
  "fs (csvPath (fst e)) = fs' (csvPath (fst e)) \<Longrightarrow>
   producesChange w fs e = producesChange w fs' e"
  by (simp add: producesChange_def split: sum.split)

lemma detailFor_cong:
  "fs (csvPath (fst e)) = fs' (csvPath (fst e)) \<Longrightarrow> detailFor w fs e = detailFor w fs' e"
  by (simp add: detailFor_def split: sum.split)

lemma isUpdated_cong:
  "fs (csvPath (fst e)) = fs' (csvPath (fst e)) \<Longrightarrow> isUpdated w fs e = isUpdated w fs' e"
  by (simp add: isUpdated_def producesChange_cong[of fs e fs'])

lemma countedUnchanged_cong:
  "fs (csvPath (fst e)) = fs' (csvPath (fst e)) \<Longrightarrow>
   countedUnchanged w fs e = countedUnchanged w fs' e"
  by (simp add: countedUnchanged_def split: sum.split)

lemma fileAfter_cong:
  "fs (csvPath (fst e)) = fs' (csvPath (fst e)) \<Longrightarrow> fileAfter w fs e = fileAfter w fs' e"
  by (simp add: fileAfter_def producesChange_cong[of fs e fs'])

lemma aborts_cong:
  "fs (csvPath (fst e)) = fs' (csvPath (fst e)) \<Longrightarrow> aborts w fs e = aborts w fs' e"
  by (simp add: aborts_def handled_def producesChange_cong[of fs e fs'])

section \<open>The whole loop\<close>

text \<open>
  The keys of the entries are distinct, so an iteration writes no file that a later
  iteration reads: each entry meets its file as it was before the loop.
\<close>

lemma later_entries:
  assumes "fst e \<notin> fst ` set es" and "e' \<in> set es"
  shows "files (disk (stepState w s e)) (csvPath (fst e')) = files (disk s) (csvPath (fst e'))"
proof -
  from assms have "fst e' \<noteq> fst e" by (metis imageI)
  then have "csvPath (fst e') \<noteq> csvPath (fst e)" by (simp add: csvPath_inject)
  then show ?thesis by (rule step_files_other)
qed

lemma loop_details_run:
  "distinct (map fst es) \<Longrightarrow>
   loop_details (loopState w es s) = loop_details s @ map (detailFor w (files (disk s))) es"
proof (induction es arbitrary: s)
  case Nil
  show ?case by simp
next
  case (Cons e es)
  let ?s' = "stepState w s e"
  from Cons.prems have d: "distinct (map fst es)" and n: "fst e \<notin> fst ` set es" by auto
  have "map (detailFor w (files (disk ?s'))) es = map (detailFor w (files (disk s))) es"
    by (rule map_cong[OF refl]) (rule detailFor_cong, rule later_entries[OF n])
  moreover have "loop_details ?s' = loop_details s @ [detailFor w (files (disk s)) e]"
    by (simp add: stepState_def)
  ultimately show ?case using Cons.IH[OF d, of ?s'] by simp
qed

lemma filter_producesChange_later:
  assumes "fst e \<notin> fst ` set es"
  shows "filter (producesChange w (files (disk (stepState w s e)))) es =
         filter (producesChange w (files (disk s))) es"
proof (rule filter_cong[OF refl])
  fix e' assume "e' \<in> set es"
  show "producesChange w (files (disk (stepState w s e))) e' =
        producesChange w (files (disk s)) e'"
    by (rule producesChange_cong, rule later_entries[OF assms \<open>e' \<in> set es\<close>])
qed

lemma filter_isUpdated_later:
  assumes "fst e \<notin> fst ` set es"
  shows "filter (isUpdated w (files (disk (stepState w s e)))) es =
         filter (isUpdated w (files (disk s))) es"
proof (rule filter_cong[OF refl])
  fix e' assume "e' \<in> set es"
  show "isUpdated w (files (disk (stepState w s e))) e' = isUpdated w (files (disk s)) e'"
    by (rule isUpdated_cong, rule later_entries[OF assms \<open>e' \<in> set es\<close>])
qed

lemma filter_countedUnchanged_later:
  assumes "fst e \<notin> fst ` set es"
  shows "filter (countedUnchanged w (files (disk (stepState w s e)))) es =
         filter (countedUnchanged w (files (disk s))) es"
proof (rule filter_cong[OF refl])
  fix e' assume "e' \<in> set es"
  show "countedUnchanged w (files (disk (stepState w s e))) e' =
        countedUnchanged w (files (disk s)) e'"
    by (rule countedUnchanged_cong, rule later_entries[OF assms \<open>e' \<in> set es\<close>])
qed

lemma loop_writes_run:
  "distinct (map fst es) \<Longrightarrow>
   writes (disk (loopState w es s)) =
     writes (disk s) @
     map (\<lambda>e. (csvPath (fst e), csvOf w (snd e))) (filter (producesChange w (files (disk s))) es)"
proof (induction es arbitrary: s)
  case Nil
  show ?case by simp
next
  case (Cons e es)
  from Cons.prems have d: "distinct (map fst es)" and n: "fst e \<notin> fst ` set es" by auto
  have "writes (disk (stepState w s e)) = writes (disk s) @
       (if producesChange w (files (disk s)) e then [(csvPath (fst e), csvOf w (snd e))] else [])"
    by (simp add: stepState_def)
  with Cons.IH[OF d, of "stepState w s e"] show ?case
    by (simp add: filter_producesChange_later[OF n])
qed

lemma loop_updatedManufacturers_run:
  "distinct (map fst es) \<Longrightarrow>
   updatedManufacturers (loopState w es s) =
     updatedManufacturers s @ map fst (filter (isUpdated w (files (disk s))) es)"
proof (induction es arbitrary: s)
  case Nil
  show ?case by simp
next
  case (Cons e es)
  from Cons.prems have d: "distinct (map fst es)" and n: "fst e \<notin> fst ` set es" by auto
  have "updatedManufacturers (stepState w s e) =
      updatedManufacturers s @ (if isUpdated w (files (disk s)) e then [fst e] else [])"
    by (simp add: stepState_def)
  with Cons.IH[OF d, of "stepState w s e"] show ?case
    by (simp add: filter_isUpdated_later[OF n])
qed

lemma loop_updatedCount_run:
  "distinct (map fst es) \<Longrightarrow>
   updatedCount (loopState w es s) =
     updatedCount s + length (filter (isUpdated w (files (disk s))) es)"
proof (induction es arbitrary: s)
  case Nil
  show ?case by simp
next
  case (Cons e es)
  from Cons.prems have d: "distinct (map fst es)" and n: "fst e \<notin> fst ` set es" by auto
  have "updatedCount (stepState w s e) =
      updatedCount s + (if isUpdated w (files (disk s)) e then 1 else 0)"
    by (simp add: stepState_def)
  with Cons.IH[OF d, of "stepState w s e"] show ?case
    by (simp add: filter_isUpdated_later[OF n])
qed

lemma loop_unchangedCount_run:
  "distinct (map fst es) \<Longrightarrow>
   unchangedCount (loopState w es s) =
     unchangedCount s + length (filter (countedUnchanged w (files (disk s))) es)"
proof (induction es arbitrary: s)
  case Nil
  show ?case by simp
next
  case (Cons e es)
  from Cons.prems have d: "distinct (map fst es)" and n: "fst e \<notin> fst ` set es" by auto
  have "unchangedCount (stepState w s e) =
      unchangedCount s + (if countedUnchanged w (files (disk s)) e then 1 else 0)"
    by (simp add: stepState_def)
  with Cons.IH[OF d, of "stepState w s e"] show ?case
    by (simp add: filter_countedUnchanged_later[OF n])
qed

lemma loop_statusFile_run:
  "statusFile (disk (loopState w es s)) = statusFile (disk s)"
  by (induction es arbitrary: s) (simp_all add: stepState_def)

lemma loop_files_other:
  "p \<notin> csvPath ` fst ` set es \<Longrightarrow> files (disk (loopState w es s)) p = files (disk s) p"
  by (induction es arbitrary: s) (simp_all add: step_files_other)

lemma loop_files_entry:
  assumes "distinct (map fst es)" and "e \<in> set es"
  shows "files (disk (loopState w es s)) (csvPath (fst e)) = fileAfter w (files (disk s)) e"
  using assms
proof (induction es arbitrary: s)
  case Nil
  then show ?case by simp
next
  case (Cons a es)
  let ?s' = "stepState w s a"
  from Cons.prems have d: "distinct (map fst es)" and n: "fst a \<notin> fst ` set es" by auto
  show ?case
  proof (cases "e = a")
    case True
    have "csvPath (fst a) \<notin> csvPath ` fst ` set es"
    proof
      assume "csvPath (fst a) \<in> csvPath ` fst ` set es"
      then obtain k where "k \<in> fst ` set es" and "csvPath (fst a) = csvPath k" by blast
      then have "fst a \<in> fst ` set es" by (simp add: csvPath_inject)
      with n show False by contradiction
    qed
    then have "files (disk (loopState w es ?s')) (csvPath (fst a)) =
          files (disk ?s') (csvPath (fst a))"
      by (rule loop_files_other)
    then show ?thesis using True by (simp add: stepState_def)
  next
    case False
    with Cons.prems have mem: "e \<in> set es" by simp
    have same: "files (disk ?s') (csvPath (fst e)) = files (disk s) (csvPath (fst e))"
      by (rule later_entries[OF n mem])
    have "fileAfter w (files (disk ?s')) e = fileAfter w (files (disk s)) e"
      by (rule fileAfter_cong) (rule same)
    with Cons.IH[OF d mem, of ?s'] show ?thesis by simp
  qed
qed

text \<open>The loop returns exactly when no iteration ends the run, and then with \<open>loopState\<close>.\<close>

lemma syncLoop_Inr:
  assumes "distinct (map fst es)" and "syncLoop w es s = Inr s'"
  shows "s' = loopState w es s \<and> (\<forall>e \<in> set es. \<not> aborts w (files (disk s)) e)"
  using assms
proof (induction es arbitrary: s)
  case Nil
  then show ?case by simp
next
  case (Cons a es)
  from Cons.prems have d: "distinct (map fst es)" and n: "fst a \<notin> fst ` set es" by auto
  have na: "\<not> aborts w (files (disk s)) a"
  proof
    assume "aborts w (files (disk s)) a"
    then have "isl (processManufacturer w s a)" by (rule step_Inl)
    with Cons.prems(2) show False by (auto simp: isl_def)
  qed
  then have st: "processManufacturer w s a = Inr (stepState w s a)" by (rule step_Inr)
  with Cons.prems(2) have "syncLoop w es (stepState w s a) = Inr s'" by simp
  from Cons.IH[OF d this] have eq: "s' = loopState w es (stepState w s a)"
    and rest: "\<forall>e \<in> set es. \<not> aborts w (files (disk (stepState w s a))) e"
    by simp_all
  have "\<not> aborts w (files (disk s)) e" if "e \<in> set es" for e
  proof -
    have "aborts w (files (disk (stepState w s a))) e = aborts w (files (disk s)) e"
      by (rule aborts_cong) (rule later_entries[OF n that])
    with rest that show ?thesis by simp
  qed
  with na eq show ?case by simp
qed

lemma syncLoop_returns:
  assumes "distinct (map fst es)" and "\<forall>e \<in> set es. \<not> aborts w (files (disk s)) e"
  shows "syncLoop w es s = Inr (loopState w es s)"
  using assms
proof (induction es arbitrary: s)
  case Nil
  show ?case by simp
next
  case (Cons a es)
  from Cons.prems have d: "distinct (map fst es)" and n: "fst a \<notin> fst ` set es" by auto
  from Cons.prems(2) have "\<not> aborts w (files (disk s)) a" by simp
  then have st: "processManufacturer w s a = Inr (stepState w s a)" by (rule step_Inr)
  have "\<not> aborts w (files (disk (stepState w s a))) e" if "e \<in> set es" for e
  proof -
    have "aborts w (files (disk (stepState w s a))) e = aborts w (files (disk s)) e"
      by (rule aborts_cong) (rule later_entries[OF n that])
    with Cons.prems(2) that show ?thesis by simp
  qed
  then have "syncLoop w es (stepState w s a) = Inr (loopState w es (stepState w s a))"
    using Cons.IH[OF d] by blast
  with st show ?case by simp
qed

section \<open>The registry and a run\<close>

lemma registry_length: "length MANUFACTURER_POLICIES = 17"
  by (simp add: MANUFACTURER_POLICIES_def)

lemma unat_of_char: "unat (of_char x :: jschar) = of_char x"
proof -
  have "unat (of_nat (of_char x) :: jschar) = (of_char x :: nat) mod 2 ^ LENGTH(16)"
    by (rule unat_of_nat)
  moreover have "(of_char x :: nat) < 2 ^ LENGTH(16)"
  proof -
    have "(of_char x :: nat) < 256" by (rule nat_of_char_less_256)
    also have "(256 :: nat) < 2 ^ LENGTH(16)" by simp
    finally show ?thesis .
  qed
  ultimately show ?thesis by (simp add: of_nat_of_char)
qed

lemma js_inject: "js a = js b \<longleftrightarrow> a = b"
proof -
  have "inj (of_char :: char \<Rightarrow> jschar)"
  proof (rule injI)
    fix c d :: char
    assume "(of_char c :: jschar) = of_char d"
    then have "unat (of_char c :: jschar) = unat (of_char d :: jschar)" by simp
    then show "c = d" by (simp add: unat_of_char)
  qed
  then show ?thesis unfolding js_def by (rule inj_map_eq_map)
qed

lemma registry_distinct: "distinct (map fst MANUFACTURER_POLICIES)"
  by (simp add: MANUFACTURER_POLICIES_def js_inject)

text \<open>What a run that returns has done, in terms of the state after the loop.\<close>

lemma execute_Inr:
  assumes "execute w st = Inr (r, st')"
  shows "\<exists>L. L = loopState w MANUFACTURER_POLICIES
                \<lparr>disk = st, loop_details = [], updatedCount = 0, unchangedCount = 0,
                 updatedManufacturers = []\<rparr>
          \<and> r = \<lparr>totalManufacturers = length MANUFACTURER_POLICIES,
                 updated = updatedCount L, unchanged = unchangedCount L,
                 details = loop_details L\<rparr>
          \<and> st' = (disk L)\<lparr>statusFile :=
                 Some \<lparr>last_run = now w, updates = updatedManufacturers L\<rparr>\<rparr>
          \<and> (\<forall>e \<in> set MANUFACTURER_POLICIES. \<not> aborts w (files st) e)"
proof -
  let ?s0 = "\<lparr>disk = st, loop_details = [], updatedCount = 0, unchangedCount = 0,
                 updatedManufacturers = []\<rparr>"
  from assms obtain s where loop: "syncLoop w MANUFACTURER_POLICIES ?s0 = Inr s"
    by (auto simp: execute_def Let_def split: sum.splits)
  from syncLoop_Inr[OF registry_distinct loop]
  have s: "s = loopState w MANUFACTURER_POLICIES ?s0"
    and na: "\<forall>e \<in> set MANUFACTURER_POLICIES. \<not> aborts w (files st) e"
    by simp_all
  from assms loop have "r = \<lparr>totalManufacturers = length MANUFACTURER_POLICIES,
                 updated = updatedCount s, unchanged = unchangedCount s,
                 details = loop_details s\<rparr>
          \<and> st' = (disk s)\<lparr>statusFile :=
                 Some \<lparr>last_run = now w, updates = updatedManufacturers s\<rparr>\<rparr>"
    by (auto simp: execute_def Let_def writeLastRunStatus_def split: sum.splits option.splits)
  with s na show ?thesis by blast
qed

text \<open>
  A run returns when the directory can be made, the status file can be written, and no
  iteration ends with an error that the handler cannot convert.
\<close>

lemma execute_returns:
  assumes "mkdirFault w = None" and "statusFault w = None"
    and "\<forall>e \<in> set MANUFACTURER_POLICIES. \<not> aborts w (files st) e"
  shows "\<exists>r st'. execute w st = Inr (r, st')"
proof -
  let ?s0 = "\<lparr>disk = st, loop_details = [], updatedCount = 0, unchangedCount = 0,
                 updatedManufacturers = []\<rparr>"
  from assms(3) have "\<forall>e \<in> set MANUFACTURER_POLICIES. \<not> aborts w (files (disk ?s0)) e"
    by simp
  from syncLoop_returns[OF registry_distinct this] assms(1,2) show ?thesis
    by (simp add: execute_def ensureOutputDir_def writeLastRunStatus_def Let_def)
qed

lemma run_total:
  "execute w st = Inr (r, st') \<Longrightarrow> totalManufacturers r = length MANUFACTURER_POLICIES"
  by (drule execute_Inr) auto

lemma run_details:
  "execute w st = Inr (r, st') \<Longrightarrow>
   details r = map (detailFor w (files st)) MANUFACTURER_POLICIES"
  by (drule execute_Inr) (auto simp: loop_details_run[OF registry_distinct])

lemma run_updated:
  "execute w st = Inr (r, st') \<Longrightarrow>
   updated r = length (filter (isUpdated w (files st)) MANUFACTURER_POLICIES)"
  by (drule execute_Inr) (auto simp: loop_updatedCount_run[OF registry_distinct])

lemma run_unchanged:
  "execute w st = Inr (r, st') \<Longrightarrow>
   unchanged r = length (filter (countedUnchanged w (files st)) MANUFACTURER_POLICIES)"
  by (drule execute_Inr) (auto simp: loop_unchangedCount_run[OF registry_distinct])

lemma run_statusFile:
  "execute w st = Inr (r, st') \<Longrightarrow>
   statusFile st' =
     Some \<lparr>last_run = now w,
           updates = map fst (filter (isUpdated w (files st)) MANUFACTURER_POLICIES)\<rparr>"
  by (drule execute_Inr) (auto simp: loop_updatedManufacturers_run[OF registry_distinct])

lemma run_writes:
  "execute w st = Inr (r, st') \<Longrightarrow>
   writes st' =
     writes st @
     map (\<lambda>e. (csvPath (fst e), csvOf w (snd e)))
       (filter (producesChange w (files st)) MANUFACTURER_POLICIES)"
  by (drule execute_Inr) (auto simp: loop_writes_run[OF registry_distinct])

lemma run_files_entry:
  "execute w st = Inr (r, st') \<Longrightarrow> e \<in> set MANUFACTURER_POLICIES \<Longrightarrow>
   files st' (csvPath (fst e)) = fileAfter w (files st) e"
  by (drule execute_Inr) (auto simp: loop_files_entry[OF registry_distinct])

lemma run_files_other:
  "execute w st = Inr (r, st') \<Longrightarrow> p \<notin> csvPath ` fst ` set MANUFACTURER_POLICIES \<Longrightarrow>
   files st' p = files st p"
  by (drule execute_Inr) (auto simp: loop_files_other)

lemma run_no_abort:
  "execute w st = Inr (r, st') \<Longrightarrow> e \<in> set MANUFACTURER_POLICIES \<Longrightarrow>
   \<not> aborts w (files st) e"
  by (drule execute_Inr) auto

lemma newWrites_eq:
  "execute w st = Inr (r, st') \<Longrightarrow>
   newWrites st st' =
     map (\<lambda>e. (csvPath (fst e), csvOf w (snd e)))
       (filter (producesChange w (files st)) MANUFACTURER_POLICIES)"
  by (simp add: newWrites_def run_writes)

lemma nth_details:
  "execute w st = Inr (r, st') \<Longrightarrow> i < length MANUFACTURER_POLICIES \<Longrightarrow>
   details r ! i = detailFor w (files st) (MANUFACTURER_POLICIES ! i)"
  by (simp add: run_details)

lemma returned:
  "\<exists>r st'. x = Inr (r, st') \<Longrightarrow> \<not> isl x \<and> x = Inr (fst (projr x), snd (projr x))"
  by auto

section \<open>The concrete worlds\<close>

lemma extractRows_Inr:
  "extractRows w url = Inr rows \<Longrightarrow>
   \<exists>prompt markdown. generateText w prompt = Inr markdown \<and> rows = parseMarkdownTable markdown"
  by (auto simp: extractRows_def callLLM_def split: sum.splits)

lemma extractRows_Inl:
  "extractRows w url = Inl e \<Longrightarrow>
   fetch w url = Inl e
   \<or> (\<exists>resp. fetch w url = Inr resp \<and> \<not> ok resp
        \<and> e = ErrorObject (js ''Failed to download PDF from '' @ url @ js '': '' @ statusText resp))
   \<or> (\<exists>resp. fetch w url = Inr resp \<and> arrayBuffer resp = Inl e)
   \<or> (\<exists>pdfBuffer. pdfParse w pdfBuffer = Inl e)
   \<or> (\<exists>prompt. generateText w prompt = Inl e)"
  by (auto simp: extractRows_def downloadPDF_def extractTextFromPDF_def callLLM_def
        split: sum.splits if_splits)

lemma extractRows_same_sources:
  assumes "fetch w2 = fetch w1" and "pdfParse w2 = pdfParse w1"
    and "generateText w2 = generateText w1"
  shows "extractRows w2 url = extractRows w1 url"
proof -
  have "downloadPDF w2 = downloadPDF w1"
    by (simp add: fun_eq_iff downloadPDF_def assms)
  moreover have "extractTextFromPDF w2 = extractTextFromPDF w1"
    by (simp add: fun_eq_iff extractTextFromPDF_def assms)
  moreover have "callLLM w2 = callLLM w1"
    by (simp add: fun_eq_iff callLLM_def assms)
  ultimately show ?thesis by (simp only: extractRows_def)
qed

lemma no_abort_convertible:
  assumes "\<And>e. extractRows w (snd entry) = Inl e \<Longrightarrow> \<not> isl (caughtMessage e)"
    and "\<And>e left. snapshotFault w entry = Some (e, left) \<Longrightarrow> \<not> isl (caughtMessage e)"
  shows "\<not> aborts w fs entry"
  using assms
  by (auto simp: aborts_def handled_def split: option.splits sum.splits if_splits)

lemma demo_thrown:
  assumes "extractRows w_demo url = Inl e"
  shows "\<exists>msg. e = ErrorObject msg"
proof -
  have f: "fetch w_demo u = Inl x \<Longrightarrow> \<exists>msg. x = ErrorObject msg" for u x
    by (auto simp: w_demo_def split: if_splits)
  have a: "fetch w_demo u = Inr resp \<Longrightarrow> arrayBuffer resp \<noteq> Inl x" for u resp x
    by (auto simp: w_demo_def split: if_splits)
  have p: "pdfParse w_demo b \<noteq> Inl x" for b x by (simp add: w_demo_def)
  have g: "generateText w_demo q \<noteq> Inl x" for q x by (simp add: w_demo_def)
  from extractRows_Inl[OF assms] f a p g show ?thesis by blast
qed

lemma parse_no_rules: "parseMarkdownTable (js ''No rules found.'') = []"
  by code_simp

lemma table_rows:
  "parseMarkdownTable TABLE = [[js ''a'', js ''b''], [js ''---'', js ''---''], [js ''1'', js ''2'']]"
  by code_simp

lemma demo_csv:
  "rowsToCSV [[js ''a'', js ''b''], [js ''---'', js ''---''], [js ''1'', js ''2'']] =
     js ''a,b\<newline>---,---\<newline>1,2''"
  by code_simp

lemma demo_csv_readBack:
  "readBack (js ''a,b\<newline>---,---\<newline>1,2'') = js ''a,b\<newline>---,---\<newline>1,2''"
  by code_simp

lemma demo_csv_plain:
  "list_all (\<lambda>c. \<not> isHighSurrogate c \<and> \<not> isLowSurrogate c) (js ''a,b\<newline>---,---\<newline>1,2'')"
  by code_simp

lemma demo_rows:
  assumes "extractRows w_demo url = Inr rows"
  shows "rows = [] \<or> rows = [[js ''a'', js ''b''], [js ''---'', js ''---''], [js ''1'', js ''2'']]"
proof -
  from extractRows_Inr[OF assms] obtain q md where g: "generateText w_demo q = Inr md"
    and r: "rows = parseMarkdownTable md" by blast
  from g have "md = js ''No rules found.'' \<or> md = TABLE"
    by (auto simp: w_demo_def split: if_splits)
  with r show ?thesis by (auto simp: parse_no_rules table_rows)
qed

text \<open>
  Every world that has the network, the decoder and the model of \<open>w_demo\<close> and in which a
  failing write throws an \<^verbatim>\<open>Error\<close> has no iteration that ends the run.
\<close>

lemma demo_like_no_abort:
  assumes "fetch w = fetch w_demo" and "pdfParse w = pdfParse w_demo"
    and "generateText w = generateText w_demo"
    and "\<And>p c e left. writeFileFault w p c = Some (e, left) \<Longrightarrow> \<exists>msg. e = ErrorObject msg"
  shows "\<not> aborts w fs entry"
proof (rule no_abort_convertible)
  fix e assume "extractRows w (snd entry) = Inl e"
  then have "extractRows w_demo (snd entry) = Inl e"
    by (simp add: extractRows_same_sources[OF assms(1-3)])
  from demo_thrown[OF this] show "\<not> isl (caughtMessage e)" by auto
next
  fix e left assume "snapshotFault w entry = Some (e, left)"
  then have "\<exists>msg. e = ErrorObject msg" by (auto simp: snapshotFault_def dest: assms(4))
  then show "\<not> isl (caughtMessage e)" by auto
qed

lemma demo_no_abort: "\<not> aborts w_demo fs entry"
  by (rule demo_like_no_abort) (simp_all add: w_demo_def)

lemma demo_like_returns:
  assumes "fetch w = fetch w_demo" and "pdfParse w = pdfParse w_demo"
    and "generateText w = generateText w_demo"
    and "\<And>p c e left. writeFileFault w p c = Some (e, left) \<Longrightarrow> \<exists>msg. e = ErrorObject msg"
    and "mkdirFault w = None" and "statusFault w = None"
  shows "\<exists>r st'. execute w st = Inr (r, st')"
  by (rule execute_returns[OF assms(5,6)]) (simp add: demo_like_no_abort[OF assms(1-4)])

lemma demo_returns: "\<exists>r st'. execute w_demo st = Inr (r, st')"
  by (rule demo_like_returns) (simp_all add: w_demo_def)

lemma fault_returns: "\<exists>r st'. execute w_fault st = Inr (r, st')"
  by (rule demo_like_returns) (auto simp: w_fault_def w_demo_def split: if_splits)

lemma registry_nth_0:
  "MANUFACTURER_POLICIES ! 0 =
     (js ''abbvie'', js ''https://340besp.com/resources/abbvie/policy.pdf'')"
  by (simp add: MANUFACTURER_POLICIES_def)

lemma registry_nth_2:
  "MANUFACTURER_POLICIES ! 2 = (js ''amgen'', js ''https://340besp.com/resources/amgen/policy.pdf'')"
  by (simp add: MANUFACTURER_POLICIES_def)

lemma registry_nth_3:
  "MANUFACTURER_POLICIES ! 3 =
     (js ''astrazeneca'', js ''https://340besp.com/resources/astrazeneca/policy.pdf'')"
  by (simp add: MANUFACTURER_POLICIES_def)


lemma demo_abbvie:
  "extractRows w_demo (js ''https://340besp.com/resources/abbvie/policy.pdf'') =
     Inl (ErrorObject (js ''socket hang up''))"
  by code_simp

lemma demo_fetch_alkermes:
  "fetch w_demo (js ''https://340besp.com/resources/alkermes/policy.pdf'') =
     Inr \<lparr>ok = False, statusText = js ''Not Found'', arrayBuffer = Inr []\<rparr>"
  by code_simp

lemma demo_amgen:
  "extractRows w_demo (js ''https://340besp.com/resources/amgen/policy.pdf'') = Inr []"
  by code_simp

lemma demo_table:
  "extractRows w_demo (js ''https://340besp.com/resources/astrazeneca/policy.pdf'') =
     Inr [[js ''a'', js ''b''], [js ''---'', js ''---''], [js ''1'', js ''2'']]"
  by code_simp


lemma demo_no_astrazeneca: "files st_demo (csvPath (js ''astrazeneca'')) = None"
  by (simp add: st_demo_def csvPath_inject js_inject)


lemma demo_no_fault: "writeFileFault w_demo p c = None"
  by (simp add: w_demo_def)

section \<open>The result of a run\<close>

lemma detailFor_id: "detail_id (detailFor w fs e) = fst e"
  by (simp add: detailFor_def failedDetail_def parsedDetail_def
        split: sum.split option.split prod.split)

lemma detailFor_updated: "detail_updated (detailFor w fs e) = isUpdated w fs e"
  by (simp add: detailFor_def isUpdated_def producesChange_def failedDetail_def parsedDetail_def
        split: sum.split option.split prod.split)

lemma detailFor_updated_no_error:
  "detail_updated (detailFor w fs e) \<Longrightarrow> detail_error (detailFor w fs e) = None"
  by (simp add: detailFor_def failedDetail_def parsedDetail_def
        split: sum.splits if_splits option.splits prod.splits)

text \<open>
  Each entry is of exactly one of three kinds: it is updated, it is counted as unchanged,
  or its table is empty.
\<close>

lemma three_kinds:
  "(isUpdated w fs e \<and> \<not> countedUnchanged w fs e \<and> extractRows w (snd e) \<noteq> Inr [])
   \<or> (\<not> isUpdated w fs e \<and> countedUnchanged w fs e \<and> extractRows w (snd e) \<noteq> Inr [])
   \<or> (\<not> isUpdated w fs e \<and> \<not> countedUnchanged w fs e \<and> extractRows w (snd e) = Inr [])"
  by (cases "extractRows w (snd e)"; cases "snapshotFault w e")
     (auto simp: isUpdated_def producesChange_def countedUnchanged_def)

lemma count_three_kinds:
  "length (filter (isUpdated w fs) es) + length (filter (countedUnchanged w fs) es)
     + length (filter (\<lambda>e. extractRows w (snd e) = Inr []) es) = length es"
proof (induction es)
  case Nil
  show ?case by simp
next
  case (Cons e es)
  with three_kinds[of w fs e] show ?case by auto
qed

text \<open>
  C6. Whatever happens to the manufacturers, the result that a run returns has
  \<open>totalManufacturers = N\<close> and \<open>N\<close> details, where \<open>N = 17\<close> is the number of entries of
  \<open>MANUFACTURER_POLICIES\<close>: one detail for each entry, in the order of the registry.
\<close>

theorem execute_one_detail_per_entry:
  assumes "execute w st = Inr (r, st')"
  shows "length MANUFACTURER_POLICIES = 17
   \<and> totalManufacturers r = 17
   \<and> length (details r) = 17
   \<and> map detail_id (details r) = map fst MANUFACTURER_POLICIES"
  by (simp add: run_total[OF assms] run_details[OF assms] registry_length detailFor_id)

theorem execute_one_detail_witness:
  "\<not> isl (execute w_fault st_demo)
   \<and> totalManufacturers (fst (projr (execute w_fault st_demo))) = 17
   \<and> length (details (fst (projr (execute w_fault st_demo)))) = 17
   \<and> map detail_id (details (fst (projr (execute w_fault st_demo))))
       = map fst MANUFACTURER_POLICIES"
proof -
  from fault_returns[of st_demo] obtain r st' where ex: "execute w_fault st_demo = Inr (r, st')"
    by blast
  from execute_one_detail_per_entry[OF ex] show ?thesis by (simp add: ex)
qed

text \<open>
  C10. After a run that returns, the \<open>updates\<close> list of the status file is the list of the
  ids of the details whose \<open>updated\<close> field is true, in the order of the details; the
  \<open>updated\<close> count of the result is the length of that list; no detail has
  \<open>updated = true\<close> together with an error message; and the details are in the order of
  the registry.
\<close>

theorem status_agrees_with_details:
  assumes "execute w st = Inr (r, st')"
  shows "statusFile st' =
     Some \<lparr>last_run = now w,
           updates = map detail_id (filter detail_updated (details r))\<rparr>
   \<and> updated r = length (map detail_id (filter detail_updated (details r)))
   \<and> filter (\<lambda>d. detail_updated d \<and> detail_error d \<noteq> None) (details r) = []
   \<and> map detail_id (details r) = map fst MANUFACTURER_POLICIES"
proof -
  let ?E = MANUFACTURER_POLICIES
  have sel: "filter detail_updated (map (detailFor w (files st)) ?E) =
        map (detailFor w (files st)) (filter (isUpdated w (files st)) ?E)"
    by (simp add: filter_map comp_def detailFor_updated)
  have ids: "map detail_id (filter detail_updated (map (detailFor w (files st)) ?E)) =
        map fst (filter (isUpdated w (files st)) ?E)"
    by (simp add: sel detailFor_id)
  have none: "filter (\<lambda>d. detail_updated d \<and> detail_error d \<noteq> None)
        (map (detailFor w (files st)) ?E) = []"
    by (auto simp: filter_empty_conv dest: detailFor_updated_no_error)
  have len: "length (filter detail_updated (map (detailFor w (files st)) ?E)) =
        length (filter (isUpdated w (files st)) ?E)"
    by (simp add: sel)
  have order: "map detail_id (map (detailFor w (files st)) ?E) = map fst ?E"
    by (simp add: detailFor_id)
  show ?thesis
    by (simp only: run_details[OF assms] run_statusFile[OF assms] run_updated[OF assms]
          ids none len order length_map simp_thms)
qed

theorem status_agrees_witness:
  "\<not> isl (execute w_fault st_demo)
   \<and> statusFile (snd (projr (execute w_fault st_demo))) =
       Some \<lparr>last_run = now w_fault,
             updates = map detail_id
               (filter detail_updated (details (fst (projr (execute w_fault st_demo)))))\<rparr>
   \<and> updated (fst (projr (execute w_fault st_demo))) =
       length (map detail_id
         (filter detail_updated (details (fst (projr (execute w_fault st_demo))))))"
proof -
  from fault_returns[of st_demo] obtain r st' where ex: "execute w_fault st_demo = Inr (r, st')"
    by blast
  from status_agrees_with_details[OF ex] show ?thesis by (simp add: ex)
qed

text \<open>
  C2. A manufacturer whose parse gives no rows gets a detail whose error is the string
  "No rows extracted from markdown table" and whose \<open>updated\<close> is false; its iteration
  changes neither counter (and nothing else but the list of details). So, in the result of
  a run, the sum of \<open>updated\<close> and \<open>unchanged\<close> falls short of \<open>totalManufacturers\<close> by
  exactly the number of manufacturers with an empty table.
\<close>

theorem empty_table_recorded_not_counted:
  assumes "execute w st = Inr (r, st')"
  shows "(\<forall>i<length MANUFACTURER_POLICIES.
      extractRows w (snd (MANUFACTURER_POLICIES ! i)) = Inr [] \<longrightarrow>
      details r ! i =
        \<lparr>detail_id = fst (MANUFACTURER_POLICIES ! i), detail_updated = False,
         detail_name = None, detail_rulesCount = None,
         detail_error = Some (js ''No rows extracted from markdown table'')\<rparr>)
   \<and> updated r + unchanged r
       + length (filter (\<lambda>e. extractRows w (snd e) = Inr []) MANUFACTURER_POLICIES)
       = totalManufacturers r
   \<and> (extractRows w url = Inr [] \<longrightarrow>
        processManufacturer w s (key, url) =
          Inr (s\<lparr>loop_details := loop_details s @
              [\<lparr>detail_id = key, detail_updated = False, detail_name = None,
                detail_rulesCount = None,
                detail_error = Some (js ''No rows extracted from markdown table'')\<rparr>]\<rparr>)
        \<and> updatedCount (projr (processManufacturer w s (key, url))) = updatedCount s
        \<and> unchangedCount (projr (processManufacturer w s (key, url))) = unchangedCount s)"
proof (intro conjI allI impI)
  fix i
  assume "i < length MANUFACTURER_POLICIES"
    and "extractRows w (snd (MANUFACTURER_POLICIES ! i)) = Inr []"
  then show "details r ! i =
        \<lparr>detail_id = fst (MANUFACTURER_POLICIES ! i), detail_updated = False,
         detail_name = None, detail_rulesCount = None,
         detail_error = Some (js ''No rows extracted from markdown table'')\<rparr>"
    by (simp add: nth_details[OF assms] detailFor_def failedDetail_def NO_ROWS_def)
next
  show "updated r + unchanged r
       + length (filter (\<lambda>e. extractRows w (snd e) = Inr []) MANUFACTURER_POLICIES)
       = totalManufacturers r"
    by (simp only: run_updated[OF assms] run_unchanged[OF assms] run_total[OF assms]
          count_three_kinds)
next
  assume e: "extractRows w url = Inr []"
  show "processManufacturer w s (key, url) =
          Inr (s\<lparr>loop_details := loop_details s @
              [\<lparr>detail_id = key, detail_updated = False, detail_name = None,
                detail_rulesCount = None,
                detail_error = Some (js ''No rows extracted from markdown table'')\<rparr>]\<rparr>)"
    by (simp add: step_empty[OF e] failedDetail_def NO_ROWS_def)
  show "updatedCount (projr (processManufacturer w s (key, url))) = updatedCount s"
    by (simp add: step_empty[OF e])
  show "unchangedCount (projr (processManufacturer w s (key, url))) = unchangedCount s"
    by (simp add: step_empty[OF e])
qed

theorem empty_table_witness:
  "\<not> isl (execute w_demo st_demo)
   \<and> extractRows w_demo (snd (MANUFACTURER_POLICIES ! 2)) = Inr []
   \<and> details (fst (projr (execute w_demo st_demo))) ! 2 =
        \<lparr>detail_id = js ''amgen'', detail_updated = False,
         detail_name = None, detail_rulesCount = None,
         detail_error = Some (js ''No rows extracted from markdown table'')\<rparr>
   \<and> updated (fst (projr (execute w_demo st_demo)))
       + unchanged (fst (projr (execute w_demo st_demo)))
       < totalManufacturers (fst (projr (execute w_demo st_demo)))
   \<and> unchangedCount (projr
        (processManufacturer w_demo
          \<lparr>disk = st_demo, loop_details = [], updatedCount = 0, unchangedCount = 0,
           updatedManufacturers = []\<rparr>
          (js ''amgen'', js ''https://340besp.com/resources/amgen/policy.pdf''))) = 0"
proof -
  let ?E = MANUFACTURER_POLICIES
  let ?s = "\<lparr>disk = st_demo, loop_details = [], updatedCount = 0, unchangedCount = 0,
           updatedManufacturers = []\<rparr>"
  from demo_returns[of st_demo] obtain r st' where ex: "execute w_demo st_demo = Inr (r, st')"
    by blast
  note inst = empty_table_recorded_not_counted[OF ex,
      where url = "js ''https://340besp.com/resources/amgen/policy.pdf''"
      and key = "js ''amgen''" and s = ?s]
  have h: "extractRows w_demo (snd (?E ! 2)) = Inr []"
    by (simp add: registry_nth_2 demo_amgen)
  have i: "(2::nat) < length ?E" by (simp add: registry_length)
  then have "?E ! 2 \<in> set ?E" by (rule nth_mem)
  with h have "filter (\<lambda>e. extractRows w_demo (snd e) = Inr []) ?E \<noteq> []"
    by (auto simp: filter_empty_conv)
  then have pos: "0 < length (filter (\<lambda>e. extractRows w_demo (snd e) = Inr []) ?E)"
    by simp
  from inst h i have d: "details r ! 2 =
        \<lparr>detail_id = js ''amgen'', detail_updated = False,
         detail_name = None, detail_rulesCount = None,
         detail_error = Some (js ''No rows extracted from markdown table'')\<rparr>"
    by (simp add: registry_nth_2)
  from inst pos have gap: "updated r + unchanged r < totalManufacturers r"
    by linarith
  from inst demo_amgen have "unchangedCount (projr (processManufacturer w_demo ?s
          (js ''amgen'', js ''https://340besp.com/resources/amgen/policy.pdf''))) = unchangedCount ?s"
    by blast
  then have step: "unchangedCount (projr (processManufacturer w_demo ?s
          (js ''amgen'', js ''https://340besp.com/resources/amgen/policy.pdf''))) = 0"
    by simp
  from h d gap step show ?thesis by (simp add: ex)
qed

section \<open>Manufacturers whose pipeline throws\<close>

lemma downloadPDF_not_ok:
  assumes "fetch w url = Inr resp" and "\<not> ok resp"
  shows "extractRows w url =
           Inl (ErrorObject (js ''Failed to download PDF from '' @ url @ js '': '' @ statusText resp))"
  using assms by (simp add: extractRows_def downloadPDF_def)

lemma thrown_counted:
  "length (filter (\<lambda>e. isl (extractRows w (snd e))) es)
     \<le> length (filter (countedUnchanged w fs) es)"
proof (induction es)
  case Nil
  show ?case by simp
next
  case (Cons e es)
  have "isl (extractRows w (snd e)) \<Longrightarrow> countedUnchanged w fs e"
    by (cases "extractRows w (snd e)") (simp_all add: countedUnchanged_def)
  with Cons show ?case by auto
qed

lemma thrown_converted:
  assumes "extractRows w (snd e) = Inl err" and "\<not> aborts w fs e"
  shows "\<exists>msg. caughtMessage err = Inr msg"
  using assms by (cases "caughtMessage err") (auto simp: aborts_def handled_def)

lemma silent_rows: "extractRows w_silent url = Inl (ErrorObject [])"
  by (simp add: extractRows_def downloadPDF_def w_silent_def)

lemma silent_returns: "\<exists>r st'. execute w_silent st = Inr (r, st')"
proof (rule execute_returns)
  show "mkdirFault w_silent = None" and "statusFault w_silent = None"
    by (simp_all add: w_silent_def)
  show "\<forall>e \<in> set MANUFACTURER_POLICIES. \<not> aborts w_silent (files st) e"
    by (simp add: aborts_def handled_def silent_rows)
qed

text \<open>
  A thrown value that is not an \<^verbatim>\<open>Error\<close> and has no string conversion ends the run: the
  handler itself throws, and \<open>execute\<close> returns no result.
\<close>

lemma unconvertible_value_ends_run: "isl (execute w_unconvertible st_empty)"
proof (rule ccontr)
  assume "\<not> isl (execute w_unconvertible st_empty)"
  then obtain r st' where ex: "execute w_unconvertible st_empty = Inr (r, st')"
    by (cases "execute w_unconvertible st_empty") auto
  have "MANUFACTURER_POLICIES ! 0 \<in> set MANUFACTURER_POLICIES"
    by (rule nth_mem) (simp add: registry_length)
  from run_no_abort[OF ex this]
  show False
    by (simp add: aborts_def handled_def extractRows_def downloadPDF_def w_unconvertible_def)
qed

text \<open>
  C3, as stated, fails: the handler stores the message of whatever was thrown, and that
  message can be the empty string. In the world \<open>w_silent\<close> the fetch of the first entry
  rejects with an \<^verbatim>\<open>Error\<close> whose message is empty; the run returns, and the detail's error
  is the empty string.
\<close>

theorem thrown_message_may_be_empty:
  "extractRows w_silent (snd (MANUFACTURER_POLICIES ! 0)) = Inl (ErrorObject [])
   \<and> \<not> isl (execute w_silent st_empty)
   \<and> detail_error (details (fst (projr (execute w_silent st_empty))) ! 0) = Some []"
proof -
  from silent_returns[of st_empty] obtain r st' where ex: "execute w_silent st_empty = Inr (r, st')"
    by blast
  have "detail_error (details r ! 0) = Some []"
    by (simp add: nth_details[OF ex] registry_length silent_rows detailFor_def failedDetail_def
          messageOf_def)
  then show ?thesis by (simp add: ex silent_rows)
qed

text \<open>
  C3, amended. Take a manufacturer whose pipeline throws at fetch, extraction or generation
  a value that the handler can convert to a message: an \<^verbatim>\<open>Error\<close>, or a value with a string
  conversion. Its iteration adds a detail with \<open>updated = false\<close> that carries that message
  (\<^verbatim>\<open>error.message\<close> or \<^verbatim>\<open>String(error)\<close>, which may be empty) as its error, adds one to
  \<open>unchangedCount\<close>, changes nothing else, and the loop goes on with the next entry. In the
  result of a run, every manufacturer whose pipeline threw has such a detail and is counted
  in \<open>unchanged\<close>, and there is one detail for each entry. The message is not empty when
  the downloader itself throws on a response that is not ok. A run returns when no
  iteration ends with an error that the handler cannot convert and the directory and the
  status file can be written.
\<close>

theorem thrown_error_recorded_and_counted_unchanged:
  "(execute w st = Inr (r, st') \<longrightarrow>
      (\<forall>i<length MANUFACTURER_POLICIES. \<forall>e.
         extractRows w (snd (MANUFACTURER_POLICIES ! i)) = Inl e \<longrightarrow>
         (\<exists>msg. caughtMessage e = Inr msg
            \<and> details r ! i =
                \<lparr>detail_id = fst (MANUFACTURER_POLICIES ! i), detail_updated = False,
                 detail_name = None, detail_rulesCount = None,
                 detail_error = Some msg\<rparr>))
      \<and> length (filter (\<lambda>e. isl (extractRows w (snd e))) MANUFACTURER_POLICIES)
          \<le> unchanged r
      \<and> length (details r) = length MANUFACTURER_POLICIES)
   \<and> (\<forall>e msg. extractRows w url = Inl e \<and> caughtMessage e = Inr msg \<longrightarrow>
        processManufacturer w s (key, url) =
          Inr (s\<lparr>loop_details := loop_details s @
              [\<lparr>detail_id = key, detail_updated = False, detail_name = None,
                detail_rulesCount = None, detail_error = Some msg\<rparr>],
            unchangedCount := unchangedCount s + 1\<rparr>))
   \<and> (\<forall>resp. fetch w url = Inr resp \<and> \<not> ok resp \<longrightarrow>
        extractRows w url =
          Inl (ErrorObject
                (js ''Failed to download PDF from '' @ url @ js '': '' @ statusText resp))
        \<and> caughtMessage (ErrorObject
                (js ''Failed to download PDF from '' @ url @ js '': '' @ statusText resp))
            = Inr (js ''Failed to download PDF from '' @ url @ js '': '' @ statusText resp)
        \<and> js ''Failed to download PDF from '' @ url @ js '': '' @ statusText resp \<noteq> [])
   \<and> (mkdirFault w = None \<and> statusFault w = None
        \<and> (\<forall>e \<in> set MANUFACTURER_POLICIES. \<not> aborts w (files st) e) \<longrightarrow>
        (\<exists>r st'. execute w st = Inr (r, st')))"
proof (intro conjI allI impI)
  fix i e
  assume ex: "execute w st = Inr (r, st')"
    and i: "i < length MANUFACTURER_POLICIES"
    and t: "extractRows w (snd (MANUFACTURER_POLICIES ! i)) = Inl e"
  from i have "MANUFACTURER_POLICIES ! i \<in> set MANUFACTURER_POLICIES" by (rule nth_mem)
  from thrown_converted[OF t run_no_abort[OF ex this]]
  obtain msg where m: "caughtMessage e = Inr msg" by blast
  from i t have "details r ! i =
        \<lparr>detail_id = fst (MANUFACTURER_POLICIES ! i), detail_updated = False,
         detail_name = None, detail_rulesCount = None, detail_error = Some msg\<rparr>"
    by (simp add: nth_details[OF ex] detailFor_def failedDetail_def messageOf_Inr[OF m])
  with m show "\<exists>msg. caughtMessage e = Inr msg
            \<and> details r ! i =
                \<lparr>detail_id = fst (MANUFACTURER_POLICIES ! i), detail_updated = False,
                 detail_name = None, detail_rulesCount = None,
                 detail_error = Some msg\<rparr>"
    by blast
next
  assume ex: "execute w st = Inr (r, st')"
  show "length (filter (\<lambda>e. isl (extractRows w (snd e))) MANUFACTURER_POLICIES)
       \<le> unchanged r"
    by (simp only: run_unchanged[OF ex] thrown_counted)
  show "length (details r) = length MANUFACTURER_POLICIES"
    by (simp add: run_details[OF ex])
next
  fix e msg
  assume "extractRows w url = Inl e \<and> caughtMessage e = Inr msg"
  then show "processManufacturer w s (key, url) =
          Inr (s\<lparr>loop_details := loop_details s @
              [\<lparr>detail_id = key, detail_updated = False, detail_name = None,
                detail_rulesCount = None, detail_error = Some msg\<rparr>],
            unchangedCount := unchangedCount s + 1\<rparr>)"
    by (simp add: step_thrown failedDetail_def)
next
  fix resp
  assume "fetch w url = Inr resp \<and> \<not> ok resp"
  then show "extractRows w url =
          Inl (ErrorObject
                (js ''Failed to download PDF from '' @ url @ js '': '' @ statusText resp))"
    by (simp add: downloadPDF_not_ok)
next
  fix resp
  show "caughtMessage (ErrorObject
                (js ''Failed to download PDF from '' @ url @ js '': '' @ statusText resp))
            = Inr (js ''Failed to download PDF from '' @ url @ js '': '' @ statusText resp)"
    by simp
  show "js ''Failed to download PDF from '' @ url @ js '': '' @ statusText resp \<noteq> []"
    by (simp add: js_def)
next
  assume "mkdirFault w = None \<and> statusFault w = None
        \<and> (\<forall>e \<in> set MANUFACTURER_POLICIES. \<not> aborts w (files st) e)"
  then show "\<exists>r st'. execute w st = Inr (r, st')"
    by (intro execute_returns) simp_all
qed

theorem thrown_error_witness:
  "\<not> isl (execute w_demo st_demo)
   \<and> extractRows w_demo (snd (MANUFACTURER_POLICIES ! 0)) = Inl (ErrorObject (js ''socket hang up''))
   \<and> details (fst (projr (execute w_demo st_demo))) ! 0 =
        \<lparr>detail_id = js ''abbvie'', detail_updated = False,
         detail_name = None, detail_rulesCount = None,
         detail_error = Some (js ''socket hang up'')\<rparr>
   \<and> unchangedCount (projr
        (processManufacturer w_demo
          \<lparr>disk = st_demo, loop_details = [], updatedCount = 0, unchangedCount = 0,
           updatedManufacturers = []\<rparr>
          (js ''abbvie'', js ''https://340besp.com/resources/abbvie/policy.pdf''))) = 1
   \<and> extractRows w_demo (js ''https://340besp.com/resources/alkermes/policy.pdf'') =
        Inl (ErrorObject (js ''Failed to download PDF from ''
               @ js ''https://340besp.com/resources/alkermes/policy.pdf''
               @ js '': '' @ js ''Not Found''))"
proof -
  let ?E = MANUFACTURER_POLICIES
  let ?s = "\<lparr>disk = st_demo, loop_details = [], updatedCount = 0, unchangedCount = 0,
           updatedManufacturers = []\<rparr>"
  note inst0 = thrown_error_recorded_and_counted_unchanged[where w = w_demo and st = st_demo
      and url = "js ''https://340besp.com/resources/abbvie/policy.pdf''"
      and key = "js ''abbvie''" and s = ?s]
  note inst1 = thrown_error_recorded_and_counted_unchanged[where w = w_demo and st = st_demo
      and url = "js ''https://340besp.com/resources/alkermes/policy.pdf''"
      and key = "js ''alkermes''" and s = ?s]
  have na: "\<forall>e \<in> set ?E. \<not> aborts w_demo (files st_demo) e"
    by (simp add: demo_no_abort)
  have "mkdirFault w_demo = None \<and> statusFault w_demo = None" by (simp add: w_demo_def)
  with inst0 na obtain r st' where ex: "execute w_demo st_demo = Inr (r, st')" by blast
  have h: "extractRows w_demo (snd (?E ! 0)) = Inl (ErrorObject (js ''socket hang up''))"
    by (simp add: registry_nth_0 demo_abbvie)
  have i: "(0::nat) < length ?E" by (simp add: registry_length)
  from inst0[of r st'] ex have part: "\<forall>i<length ?E. \<forall>e.
         extractRows w_demo (snd (?E ! i)) = Inl e \<longrightarrow>
         (\<exists>msg. caughtMessage e = Inr msg
            \<and> details r ! i =
                \<lparr>detail_id = fst (?E ! i), detail_updated = False,
                 detail_name = None, detail_rulesCount = None,
                 detail_error = Some msg\<rparr>)"
    by blast
  from part[rule_format, OF i h] have d: "details r ! 0 =
        \<lparr>detail_id = js ''abbvie'', detail_updated = False,
         detail_name = None, detail_rulesCount = None,
         detail_error = Some (js ''socket hang up'')\<rparr>"
    by (auto simp: registry_nth_0)
  have cm: "extractRows w_demo (js ''https://340besp.com/resources/abbvie/policy.pdf'')
        = Inl (ErrorObject (js ''socket hang up''))
      \<and> caughtMessage (ErrorObject (js ''socket hang up'')) = Inr (js ''socket hang up'')"
    by (simp add: demo_abbvie)
  from inst0[of r st'] have stepAll: "\<forall>e msg.
        extractRows w_demo (js ''https://340besp.com/resources/abbvie/policy.pdf'') = Inl e
        \<and> caughtMessage e = Inr msg \<longrightarrow>
        processManufacturer w_demo ?s
          (js ''abbvie'', js ''https://340besp.com/resources/abbvie/policy.pdf'') =
          Inr (?s\<lparr>loop_details := loop_details ?s @
              [\<lparr>detail_id = js ''abbvie'', detail_updated = False, detail_name = None,
                detail_rulesCount = None, detail_error = Some msg\<rparr>],
            unchangedCount := unchangedCount ?s + 1\<rparr>)"
    by (elim conjE)
  from stepAll[rule_format, OF cm]
  have step: "unchangedCount (projr (processManufacturer w_demo ?s
          (js ''abbvie'', js ''https://340besp.com/resources/abbvie/policy.pdf''))) = 1"
    by simp
  from inst1[of r st'] demo_fetch_alkermes
  have dl: "extractRows w_demo (js ''https://340besp.com/resources/alkermes/policy.pdf'') =
        Inl (ErrorObject (js ''Failed to download PDF from ''
               @ js ''https://340besp.com/resources/alkermes/policy.pdf''
               @ js '': '' @ js ''Not Found''))"
    by simp
  from h d step dl show ?thesis by (simp add: ex)
qed

section \<open>When a snapshot is written\<close>

lemma producesChange_iff:
  "producesChange w fs e \<longleftrightarrow>
     (\<exists>rows. extractRows w (snd e) = Inr rows \<and> rows \<noteq> []
        \<and> fs (csvPath (fst e)) \<noteq> Some (rowsToCSV rows))"
  by (cases "extractRows w (snd e)") (simp_all add: producesChange_def)

lemma csvOf_rows: "extractRows w url = Inr rows \<Longrightarrow> csvOf w url = rowsToCSV rows"
  by (simp add: csvOf_def)



lemma demo_astrazeneca_changes:
  "producesChange w_demo (files st_demo) (MANUFACTURER_POLICIES ! 3)"
  by (simp add: producesChange_def registry_nth_3 demo_table demo_no_astrazeneca)


lemma demo_astrazeneca_file:
  assumes "execute w_demo st_demo = Inr (r, st')"
  shows "files st' (csvPath (js ''astrazeneca'')) = Some (js ''a,b\<newline>---,---\<newline>1,2'')"
proof -
  have "MANUFACTURER_POLICIES ! 3 \<in> set MANUFACTURER_POLICIES"
    by (rule nth_mem) (simp add: registry_length)
  from run_files_entry[OF assms this] demo_astrazeneca_changes
  show ?thesis
    by (simp add: fileAfter_def snapshotFault_def demo_no_fault registry_nth_3 csvOf_def
          demo_table demo_csv demo_csv_readBack)
qed


section \<open>A snapshot that changes\<close>

lemma readBack_no_surrogates:
  "\<forall>c \<in> set s. \<not> isHighSurrogate c \<and> \<not> isLowSurrogate c \<Longrightarrow> readBack s = s"
  by (induction s rule: readBack.induct) simp_all

lemma fault_rows: "extractRows w_fault url = extractRows w_demo url"
  by (rule extractRows_same_sources) (simp_all add: w_fault_def)

lemma fault_astrazeneca:
  "snapshotFault w_fault (MANUFACTURER_POLICIES ! 3) =
     Some (ErrorObject (js ''EISDIR: illegal operation on a directory, open''), None)"
  by (simp add: snapshotFault_def registry_nth_3 w_fault_def)

text \<open>
  C5, as stated, fails: the write of the snapshot is inside the \<^verbatim>\<open>try\<close>, and when it
  throws the handler records the error. In the world \<open>w_fault\<close> the pipeline of the fourth
  entry gives rows, there is no snapshot, and the write fails: the detail has
  \<open>updated = false\<close> with the message of the write as its error, and there is no snapshot
  after the run.
\<close>

theorem failed_write_not_updated:
  "extractRows w_fault (snd (MANUFACTURER_POLICIES ! 3)) =
      Inr [[js ''a'', js ''b''], [js ''---'', js ''---''], [js ''1'', js ''2'']]
   \<and> files st_demo (csvPath (fst (MANUFACTURER_POLICIES ! 3))) = None
   \<and> \<not> isl (execute w_fault st_demo)
   \<and> details (fst (projr (execute w_fault st_demo))) ! 3 =
        \<lparr>detail_id = js ''astrazeneca'', detail_updated = False, detail_name = None,
         detail_rulesCount = Some 2,
         detail_error = Some (js ''EISDIR: illegal operation on a directory, open'')\<rparr>
   \<and> files (snd (projr (execute w_fault st_demo))) (csvPath (js ''astrazeneca'')) = None"
proof -
  let ?E = MANUFACTURER_POLICIES
  from fault_returns[of st_demo] obtain r st' where ex: "execute w_fault st_demo = Inr (r, st')"
    by blast
  have i: "(3::nat) < length ?E" by (simp add: registry_length)
  then have m: "?E ! 3 \<in> set ?E" by (rule nth_mem)
  have rows: "extractRows w_fault (snd (?E ! 3)) =
      Inr [[js ''a'', js ''b''], [js ''---'', js ''---''], [js ''1'', js ''2'']]"
    by (simp add: fault_rows registry_nth_3 demo_table)
  have nofile: "files st_demo (csvPath (fst (?E ! 3))) = None"
    by (simp add: registry_nth_3 demo_no_astrazeneca)
  have d: "details r ! 3 =
        \<lparr>detail_id = js ''astrazeneca'', detail_updated = False, detail_name = None,
         detail_rulesCount = Some 2,
         detail_error = Some (js ''EISDIR: illegal operation on a directory, open'')\<rparr>"
    using nofile rows
    by (simp add: nth_details[OF ex i] detailFor_def fault_astrazeneca parsedDetail_def
          messageOf_def)
       (simp add: registry_nth_3)
  have f: "files st' (csvPath (js ''astrazeneca'')) = None"
    using run_files_entry[OF ex m] nofile rows
    by (simp add: fileAfter_def producesChange_def fault_astrazeneca)
       (simp add: registry_nth_3)
  from rows nofile d f show ?thesis by (simp add: ex)
qed

text \<open>
  C5, amended. For a manufacturer whose pipeline gives rows, whose file does not hold the
  CSV of these rows (no file, or another content) and whose snapshot is written without a
  fault, the run gives a detail with \<open>updated = true\<close> (and no error); the file holds after
  the run the new CSV as it reads back through UTF-8, which is the CSV itself when it has
  no surrogate code unit; the write of exactly that CSV is in the trace; and the id is in
  the \<open>updates\<close> list of the status file. The iteration adds one to \<open>updatedCount\<close>, and the
  \<open>updated\<close> count of the result is the number of such manufacturers.
\<close>

theorem changed_snapshot_written_and_reported:
  "(execute w st = Inr (r, st') \<longrightarrow>
     (\<forall>i<length MANUFACTURER_POLICIES. \<forall>rows.
        extractRows w (snd (MANUFACTURER_POLICIES ! i)) = Inr rows \<and> rows \<noteq> []
        \<and> files st (csvPath (fst (MANUFACTURER_POLICIES ! i))) \<noteq> Some (rowsToCSV rows)
        \<and> writeFileFault w (csvPath (fst (MANUFACTURER_POLICIES ! i))) (rowsToCSV rows) = None
        \<longrightarrow>
        details r ! i =
          \<lparr>detail_id = fst (MANUFACTURER_POLICIES ! i), detail_updated = True,
           detail_name = None, detail_rulesCount = Some (int (length rows) - 1),
           detail_error = None\<rparr>
        \<and> files st' (csvPath (fst (MANUFACTURER_POLICIES ! i)))
             = Some (readBack (rowsToCSV rows))
        \<and> ((\<forall>c \<in> set (rowsToCSV rows). \<not> isHighSurrogate c \<and> \<not> isLowSurrogate c) \<longrightarrow>
             files st' (csvPath (fst (MANUFACTURER_POLICIES ! i))) = Some (rowsToCSV rows))
        \<and> (csvPath (fst (MANUFACTURER_POLICIES ! i)), rowsToCSV rows) \<in> set (newWrites st st')
        \<and> (\<exists>status. statusFile st' = Some status
              \<and> fst (MANUFACTURER_POLICIES ! i) \<in> set (updates status)))
     \<and> updated r = length (filter (isUpdated w (files st)) MANUFACTURER_POLICIES))
   \<and> (\<forall>rows.
        extractRows w url = Inr rows \<and> rows \<noteq> []
        \<and> files (disk s) (csvPath key) \<noteq> Some (rowsToCSV rows)
        \<and> writeFileFault w (csvPath key) (rowsToCSV rows) = None \<longrightarrow>
        processManufacturer w s (key, url) =
          Inr (s\<lparr>disk := (disk s)
                    \<lparr>files := (files (disk s))(csvPath key \<mapsto> readBack (rowsToCSV rows)),
                     writes := writes (disk s) @ [(csvPath key, rowsToCSV rows)]\<rparr>,
                 loop_details := loop_details s @
                   [\<lparr>detail_id = key, detail_updated = True, detail_name = None,
                     detail_rulesCount = Some (int (length rows) - 1), detail_error = None\<rparr>],
                 updatedCount := updatedCount s + 1,
                 updatedManufacturers := updatedManufacturers s @ [key]\<rparr>))"
proof (intro conjI allI impI)
  fix i rows
  let ?e = "MANUFACTURER_POLICIES ! i"
  assume ex: "execute w st = Inr (r, st')"
    and i: "i < length MANUFACTURER_POLICIES"
    and h: "extractRows w (snd ?e) = Inr rows \<and> rows \<noteq> []
        \<and> files st (csvPath (fst ?e)) \<noteq> Some (rowsToCSV rows)
        \<and> writeFileFault w (csvPath (fst ?e)) (rowsToCSV rows) = None"
  from i have mem: "?e \<in> set MANUFACTURER_POLICIES" by (rule nth_mem)
  from h have ch: "producesChange w (files st) ?e" by (auto simp: producesChange_iff)
  from h have csv: "csvOf w (snd ?e) = rowsToCSV rows" by (simp add: csvOf_rows)
  from h csv have nf: "snapshotFault w ?e = None" by (simp add: snapshotFault_def)
  from ch nf have up: "isUpdated w (files st) ?e" by (simp add: isUpdated_def)
  from mem ch have sel: "?e \<in> set (filter (producesChange w (files st)) MANUFACTURER_POLICIES)"
    by simp
  from mem up have selu: "?e \<in> set (filter (isUpdated w (files st)) MANUFACTURER_POLICIES)"
    by simp
  from i h nf show "details r ! i =
        \<lparr>detail_id = fst ?e, detail_updated = True,
         detail_name = None, detail_rulesCount = Some (int (length rows) - 1),
         detail_error = None\<rparr>"
    by (simp add: nth_details[OF ex] detailFor_def parsedDetail_def)
  from ch nf csv show fl: "files st' (csvPath (fst ?e)) = Some (readBack (rowsToCSV rows))"
    by (simp add: run_files_entry[OF ex mem] fileAfter_def)
  from sel have "(csvPath (fst ?e), csvOf w (snd ?e)) \<in> set (newWrites st st')"
    unfolding newWrites_eq[OF ex] set_map by (rule imageI)
  with csv show "(csvPath (fst ?e), rowsToCSV rows) \<in> set (newWrites st st')" by simp
  from selu have "fst ?e \<in> set (map fst (filter (isUpdated w (files st)) MANUFACTURER_POLICIES))"
    unfolding set_map by (rule imageI)
  then show "\<exists>status. statusFile st' = Some status \<and> fst ?e \<in> set (updates status)"
    by (simp add: run_statusFile[OF ex])
  assume "\<forall>c \<in> set (rowsToCSV rows). \<not> isHighSurrogate c \<and> \<not> isLowSurrogate c"
  then have "readBack (rowsToCSV rows) = rowsToCSV rows" by (rule readBack_no_surrogates)
  with fl show "files st' (csvPath (fst ?e)) = Some (rowsToCSV rows)" by simp
next
  assume ex: "execute w st = Inr (r, st')"
  show "updated r = length (filter (isUpdated w (files st)) MANUFACTURER_POLICIES)"
    by (rule run_updated[OF ex])
next
  fix rows
  assume "extractRows w url = Inr rows \<and> rows \<noteq> []
        \<and> files (disk s) (csvPath key) \<noteq> Some (rowsToCSV rows)
        \<and> writeFileFault w (csvPath key) (rowsToCSV rows) = None"
  then show "processManufacturer w s (key, url) =
          Inr (s\<lparr>disk := (disk s)
                    \<lparr>files := (files (disk s))(csvPath key \<mapsto> readBack (rowsToCSV rows)),
                     writes := writes (disk s) @ [(csvPath key, rowsToCSV rows)]\<rparr>,
                 loop_details := loop_details s @
                   [\<lparr>detail_id = key, detail_updated = True, detail_name = None,
                     detail_rulesCount = Some (int (length rows) - 1), detail_error = None\<rparr>],
                 updatedCount := updatedCount s + 1,
                 updatedManufacturers := updatedManufacturers s @ [key]\<rparr>)"
    by (simp add: step_changed parsedDetail_def)
qed

theorem changed_snapshot_witness:
  "\<not> isl (execute w_demo st_demo)
   \<and> extractRows w_demo (snd (MANUFACTURER_POLICIES ! 3)) =
      Inr [[js ''a'', js ''b''], [js ''---'', js ''---''], [js ''1'', js ''2'']]
   \<and> files st_demo (csvPath (fst (MANUFACTURER_POLICIES ! 3))) = None
   \<and> writeFileFault w_demo (csvPath (fst (MANUFACTURER_POLICIES ! 3)))
        (rowsToCSV [[js ''a'', js ''b''], [js ''---'', js ''---''], [js ''1'', js ''2'']]) = None
   \<and> list_all (\<lambda>c. \<not> isHighSurrogate c \<and> \<not> isLowSurrogate c)
        (rowsToCSV [[js ''a'', js ''b''], [js ''---'', js ''---''], [js ''1'', js ''2'']])
   \<and> details (fst (projr (execute w_demo st_demo))) ! 3 =
        \<lparr>detail_id = js ''astrazeneca'', detail_updated = True,
         detail_name = None, detail_rulesCount = Some 2, detail_error = None\<rparr>
   \<and> files (snd (projr (execute w_demo st_demo))) (csvPath (js ''astrazeneca''))
        = Some (js ''a,b\<newline>---,---\<newline>1,2'')
   \<and> updatedCount (projr
        (processManufacturer w_demo
          \<lparr>disk = st_demo, loop_details = [], updatedCount = 0, unchangedCount = 0,
           updatedManufacturers = []\<rparr>
          (js ''astrazeneca'', js ''https://340besp.com/resources/astrazeneca/policy.pdf''))) = 1"
proof -
  let ?E = MANUFACTURER_POLICIES
  let ?rows = "[[js ''a'', js ''b''], [js ''---'', js ''---''], [js ''1'', js ''2'']]"
  let ?s = "\<lparr>disk = st_demo, loop_details = [], updatedCount = 0, unchangedCount = 0,
           updatedManufacturers = []\<rparr>"
  from demo_returns[of st_demo] obtain r st' where ex: "execute w_demo st_demo = Inr (r, st')"
    by blast
  note inst = changed_snapshot_written_and_reported[where w = w_demo and st = st_demo
      and r = r and st' = st'
      and url = "js ''https://340besp.com/resources/astrazeneca/policy.pdf''"
      and key = "js ''astrazeneca''" and s = ?s]
  have i: "(3::nat) < length ?E" by (simp add: registry_length)
  have rr: "extractRows w_demo (snd (?E ! 3)) = Inr ?rows"
    by (simp add: registry_nth_3 demo_table)
  have f: "files st_demo (csvPath (fst (?E ! 3))) = None"
    by (simp add: registry_nth_3 demo_no_astrazeneca)
  have nf: "writeFileFault w_demo (csvPath (fst (?E ! 3))) (rowsToCSV ?rows) = None"
    by (rule demo_no_fault)
  from rr f nf have h: "extractRows w_demo (snd (?E ! 3)) = Inr ?rows \<and> ?rows \<noteq> []
      \<and> files st_demo (csvPath (fst (?E ! 3))) \<noteq> Some (rowsToCSV ?rows)
      \<and> writeFileFault w_demo (csvPath (fst (?E ! 3))) (rowsToCSV ?rows) = None"
    by simp
  from inst ex have part: "\<forall>i<length ?E. \<forall>rows.
        extractRows w_demo (snd (?E ! i)) = Inr rows \<and> rows \<noteq> []
        \<and> files st_demo (csvPath (fst (?E ! i))) \<noteq> Some (rowsToCSV rows)
        \<and> writeFileFault w_demo (csvPath (fst (?E ! i))) (rowsToCSV rows) = None
        \<longrightarrow>
        details r ! i =
          \<lparr>detail_id = fst (?E ! i), detail_updated = True,
           detail_name = None, detail_rulesCount = Some (int (length rows) - 1),
           detail_error = None\<rparr>
        \<and> files st' (csvPath (fst (?E ! i))) = Some (readBack (rowsToCSV rows))
        \<and> ((\<forall>c \<in> set (rowsToCSV rows). \<not> isHighSurrogate c \<and> \<not> isLowSurrogate c) \<longrightarrow>
             files st' (csvPath (fst (?E ! i))) = Some (rowsToCSV rows))
        \<and> (csvPath (fst (?E ! i)), rowsToCSV rows) \<in> set (newWrites st_demo st')
        \<and> (\<exists>status. statusFile st' = Some status
              \<and> fst (?E ! i) \<in> set (updates status))"
    by blast
  have plain: "\<forall>c \<in> set (rowsToCSV ?rows). \<not> isHighSurrogate c \<and> \<not> isLowSurrogate c"
    using demo_csv_plain by (simp only: demo_csv list_all_iff)
  from part[rule_format, OF i h]
  have d: "details r ! 3 =
        \<lparr>detail_id = js ''astrazeneca'', detail_updated = True,
         detail_name = None, detail_rulesCount = Some 2, detail_error = None\<rparr>"
    by (simp add: registry_nth_3)
  from part[rule_format, OF i h] plain
  have "files st' (csvPath (fst (?E ! 3))) = Some (rowsToCSV ?rows)"
    by blast
  then have wr: "files st' (csvPath (js ''astrazeneca'')) = Some (js ''a,b\<newline>---,---\<newline>1,2'')"
    by (simp add: registry_nth_3 demo_csv)
  have h': "extractRows w_demo (js ''https://340besp.com/resources/astrazeneca/policy.pdf'') = Inr ?rows
        \<and> ?rows \<noteq> []
        \<and> files (disk ?s) (csvPath (js ''astrazeneca'')) \<noteq> Some (rowsToCSV ?rows)
        \<and> writeFileFault w_demo (csvPath (js ''astrazeneca'')) (rowsToCSV ?rows) = None"
    by (simp add: demo_table demo_no_astrazeneca demo_no_fault)
  from inst have stepAll: "\<forall>rows.
        extractRows w_demo (js ''https://340besp.com/resources/astrazeneca/policy.pdf'') = Inr rows
        \<and> rows \<noteq> []
        \<and> files (disk ?s) (csvPath (js ''astrazeneca'')) \<noteq> Some (rowsToCSV rows)
        \<and> writeFileFault w_demo (csvPath (js ''astrazeneca'')) (rowsToCSV rows) = None \<longrightarrow>
        processManufacturer w_demo ?s
          (js ''astrazeneca'', js ''https://340besp.com/resources/astrazeneca/policy.pdf'') =
          Inr (?s\<lparr>disk := (disk ?s)
                    \<lparr>files := (files (disk ?s))(csvPath (js ''astrazeneca'') \<mapsto> readBack (rowsToCSV rows)),
                     writes := writes (disk ?s) @ [(csvPath (js ''astrazeneca''), rowsToCSV rows)]\<rparr>,
                 loop_details := loop_details ?s @
                   [\<lparr>detail_id = js ''astrazeneca'', detail_updated = True, detail_name = None,
                     detail_rulesCount = Some (int (length rows) - 1), detail_error = None\<rparr>],
                 updatedCount := updatedCount ?s + 1,
                 updatedManufacturers := updatedManufacturers ?s @ [js ''astrazeneca'']\<rparr>)"
    by (elim conjE)
  from stepAll[rule_format, OF h']
  have step: "updatedCount (projr (processManufacturer w_demo ?s
          (js ''astrazeneca'', js ''https://340besp.com/resources/astrazeneca/policy.pdf''))) = 1"
    by simp
  from plain have plain': "list_all (\<lambda>c. \<not> isHighSurrogate c \<and> \<not> isLowSurrogate c)
        (rowsToCSV ?rows)"
    by (simp only: list_all_iff)
  from rr f nf d wr step plain' show ?thesis by (simp add: ex)
qed

section \<open>Running the sync twice\<close>

lemma surrogate_rows: "extractRows w_surrogate url = Inr [[[0xD800]]]"
proof -
  have "parseMarkdownTable [PIPE, 0xD800, PIPE] = [[[0xD800]]]" by code_simp
  then show ?thesis
    by (simp add: extractRows_def downloadPDF_def extractTextFromPDF_def callLLM_def
          w_surrogate_def)
qed

lemma surrogate_csv: "rowsToCSV [[[0xD800]]] = [0xD800]"
  by code_simp

lemma surrogate_no_fault: "snapshotFault w_surrogate e = None"
  by (simp add: snapshotFault_def w_surrogate_def)

lemma surrogate_returns: "\<exists>r st'. execute w_surrogate st = Inr (r, st')"
proof (rule execute_returns)
  show "mkdirFault w_surrogate = None" and "statusFault w_surrogate = None"
    by (simp_all add: w_surrogate_def)
  show "\<forall>e \<in> set MANUFACTURER_POLICIES. \<not> aborts w_surrogate (files st) e"
    by (simp add: aborts_def handled_def surrogate_rows surrogate_no_fault)
qed

text \<open>
  C9, as stated, fails: the snapshot is compared with the string that is read back through
  UTF-8, and a surrogate code unit without its partner does not read back as it was
  written. In the world \<open>w_surrogate\<close> the source and the model's reply are the same in
  both runs, and the second run, on the store that the first one left, updates all
  seventeen manufacturers again.
\<close>

theorem lone_surrogate_updated_again:
  "\<not> isl (execute w_surrogate st_empty)
   \<and> \<not> isl (execute w_surrogate (snd (projr (execute w_surrogate st_empty))))
   \<and> updated (fst (projr (execute w_surrogate (snd (projr (execute w_surrogate st_empty))))))
       = 17"
proof -
  let ?E = MANUFACTURER_POLICIES
  from surrogate_returns[of st_empty] obtain r1 st1
    where ex1: "execute w_surrogate st_empty = Inr (r1, st1)" by blast
  from surrogate_returns[of st1] obtain r2 st2
    where ex2: "execute w_surrogate st1 = Inr (r2, st2)" by blast
  have first: "files st1 (csvPath (fst e)) = Some [0xFFFD]" if "e \<in> set ?E" for e
    using run_files_entry[OF ex1 that]
    by (simp add: fileAfter_def producesChange_def surrogate_rows surrogate_no_fault csvOf_def
          surrogate_csv isHighSurrogate_def st_empty_def)
  have "isUpdated w_surrogate (files st1) e" if "e \<in> set ?E" for e
    using first[OF that]
    by (simp add: isUpdated_def producesChange_def surrogate_rows surrogate_no_fault
          surrogate_csv)
  then have "filter (isUpdated w_surrogate (files st1)) ?E = ?E" by simp
  then have "updated r2 = 17" by (simp add: run_updated[OF ex2] registry_length)
  then show ?thesis by (simp add: ex1 ex2)
qed

lemma settled_after_run:
  assumes ex1: "execute w1 st = Inr (r1, st1)"
    and e: "e \<in> set MANUFACTURER_POLICIES"
    and same: "\<And>url. extractRows w2 url = extractRows w1 url"
    and wf: "\<And>rows. extractRows w1 (snd e) = Inr rows \<Longrightarrow>
               readBack (rowsToCSV rows) = rowsToCSV rows"
    and nofail: "\<And>rows. extractRows w1 (snd e) = Inr rows \<Longrightarrow> rows \<noteq> [] \<Longrightarrow>
               files st (csvPath (fst e)) \<noteq> Some (rowsToCSV rows) \<Longrightarrow>
               writeFileFault w1 (csvPath (fst e)) (rowsToCSV rows) = None"
  shows "\<not> producesChange w2 (files st1) e"
proof
  assume "producesChange w2 (files st1) e"
  then obtain rows where r: "extractRows w1 (snd e) = Inr rows" and ne: "rows \<noteq> []"
    and diff: "files st1 (csvPath (fst e)) \<noteq> Some (rowsToCSV rows)"
    by (auto simp: producesChange_iff same)
  show False
  proof (cases "producesChange w1 (files st) e")
    case True
    with r have "files st (csvPath (fst e)) \<noteq> Some (rowsToCSV rows)"
      by (simp add: producesChange_def)
    from nofail[OF r ne this] r have "snapshotFault w1 e = None"
      by (simp add: snapshotFault_def csvOf_rows)
    with True r have "files st1 (csvPath (fst e)) = Some (readBack (rowsToCSV rows))"
      by (simp add: run_files_entry[OF ex1 e] fileAfter_def csvOf_rows)
    with wf[OF r] diff show False by simp
  next
    case False
    with r ne have "files st (csvPath (fst e)) = Some (rowsToCSV rows)"
      by (simp add: producesChange_def)
    with False have "files st1 (csvPath (fst e)) = Some (rowsToCSV rows)"
      by (simp add: run_files_entry[OF ex1 e] fileAfter_def)
    with diff show False by contradiction
  qed
qed

text \<open>
  C9, amended. Let a second run follow a first one, the network, the PDF decoder and the
  language model answering in the second run as they did in the first, and let both runs
  return. When every CSV text that the pipeline produces reads back through UTF-8 as it
  is (it has no surrogate code unit without its partner), and no write of a snapshot
  failed in the first run, the second run reports \<open>updated = 0\<close>, makes no
  \<^verbatim>\<open>writeCSV\<close> call, and leaves every CSV file with the content the first run left; its
  status file has an empty \<open>updates\<close> list.
\<close>

theorem second_run_updates_nothing:
  assumes "fetch w2 = fetch w1" and "pdfParse w2 = pdfParse w1"
    and "generateText w2 = generateText w1"
    and "execute w1 st = Inr (r1, st1)" and "execute w2 st1 = Inr (r2, st2)"
    and "\<forall>e \<in> set MANUFACTURER_POLICIES. \<forall>rows.
           extractRows w1 (snd e) = Inr rows \<longrightarrow> readBack (rowsToCSV rows) = rowsToCSV rows"
    and "\<forall>e \<in> set MANUFACTURER_POLICIES. \<forall>rows.
           extractRows w1 (snd e) = Inr rows \<and> rows \<noteq> []
           \<and> files st (csvPath (fst e)) \<noteq> Some (rowsToCSV rows) \<longrightarrow>
           writeFileFault w1 (csvPath (fst e)) (rowsToCSV rows) = None"
  shows "updated r2 = 0
    \<and> newWrites st1 st2 = []
    \<and> files st2 = files st1
    \<and> statusFile st2 = Some \<lparr>last_run = now w2, updates = []\<rparr>"
proof -
  note ex1 = assms(4) and ex2 = assms(5)
  have same: "\<And>url. extractRows w2 url = extractRows w1 url"
    by (rule extractRows_same_sources[OF assms(1-3)])
  have settled: "\<not> producesChange w2 (files st1) e" if "e \<in> set MANUFACTURER_POLICIES" for e
    using assms(6,7) that by (intro settled_after_run[OF ex1 that same]) blast+
  then have none: "filter (producesChange w2 (files st1)) MANUFACTURER_POLICIES = []"
    by (simp add: filter_empty_conv)
  from settled have noneu: "filter (isUpdated w2 (files st1)) MANUFACTURER_POLICIES = []"
    by (simp add: filter_empty_conv isUpdated_def)
  have "files st2 p = files st1 p" for p
  proof (cases "p \<in> csvPath ` fst ` set MANUFACTURER_POLICIES")
    case True
    then obtain e where e: "e \<in> set MANUFACTURER_POLICIES" and p: "p = csvPath (fst e)"
      by blast
    from settled[OF e] p show ?thesis by (simp add: run_files_entry[OF ex2 e] fileAfter_def)
  next
    case False
    then show ?thesis by (rule run_files_other[OF ex2])
  qed
  then have "files st2 = files st1" by (rule ext)
  with none noneu show ?thesis
    by (simp add: run_updated[OF ex2] newWrites_eq[OF ex2] run_statusFile[OF ex2])
qed

lemma demo_wellformed:
  "extractRows w_demo url = Inr rows \<Longrightarrow> readBack (rowsToCSV rows) = rowsToCSV rows"
proof -
  assume "extractRows w_demo url = Inr rows"
  from demo_rows[OF this] show ?thesis
  proof
    assume "rows = []"
    then show ?thesis by (simp add: rowsToCSV_def)
  next
    assume "rows = [[js ''a'', js ''b''], [js ''---'', js ''---''], [js ''1'', js ''2'']]"
    then show ?thesis by (simp only: demo_csv demo_csv_readBack)
  qed
qed

theorem second_run_witness:
  "fetch (w_demo\<lparr>now := js ''2026-01-02T00:00:00.000Z''\<rparr>) = fetch w_demo
   \<and> pdfParse (w_demo\<lparr>now := js ''2026-01-02T00:00:00.000Z''\<rparr>) = pdfParse w_demo
   \<and> generateText (w_demo\<lparr>now := js ''2026-01-02T00:00:00.000Z''\<rparr>) = generateText w_demo
   \<and> \<not> isl (execute w_demo st_demo)
   \<and> \<not> isl (execute (w_demo\<lparr>now := js ''2026-01-02T00:00:00.000Z''\<rparr>)
        (snd (projr (execute w_demo st_demo))))
   \<and> updated (fst (projr (execute (w_demo\<lparr>now := js ''2026-01-02T00:00:00.000Z''\<rparr>)
        (snd (projr (execute w_demo st_demo)))))) = 0
   \<and> files (snd (projr (execute (w_demo\<lparr>now := js ''2026-01-02T00:00:00.000Z''\<rparr>)
        (snd (projr (execute w_demo st_demo)))))) = files (snd (projr (execute w_demo st_demo)))
   \<and> files (snd (projr (execute w_demo st_demo))) (csvPath (js ''astrazeneca''))
        = Some (js ''a,b\<newline>---,---\<newline>1,2'')"
proof -
  let ?w2 = "w_demo\<lparr>now := js ''2026-01-02T00:00:00.000Z''\<rparr>"
  have a: "fetch ?w2 = fetch w_demo" and b: "pdfParse ?w2 = pdfParse w_demo"
    and c: "generateText ?w2 = generateText w_demo"
    by simp_all
  from demo_returns[of st_demo] obtain r1 st1 where ex1: "execute w_demo st_demo = Inr (r1, st1)"
    by blast
  have "\<exists>r st'. execute ?w2 st1 = Inr (r, st')"
    by (rule demo_like_returns) (simp_all add: w_demo_def)
  then obtain r2 st2 where ex2: "execute ?w2 st1 = Inr (r2, st2)" by blast
  have wf: "\<forall>e \<in> set MANUFACTURER_POLICIES. \<forall>rows.
           extractRows w_demo (snd e) = Inr rows \<longrightarrow> readBack (rowsToCSV rows) = rowsToCSV rows"
    by (simp add: demo_wellformed)
  have nofail: "\<forall>e \<in> set MANUFACTURER_POLICIES. \<forall>rows.
           extractRows w_demo (snd e) = Inr rows \<and> rows \<noteq> []
           \<and> files st_demo (csvPath (fst e)) \<noteq> Some (rowsToCSV rows) \<longrightarrow>
           writeFileFault w_demo (csvPath (fst e)) (rowsToCSV rows) = None"
    by (simp add: demo_no_fault)
  from second_run_updates_nothing[OF a b c ex1 ex2 wf nofail] a b c
    demo_astrazeneca_file[OF ex1]
  show ?thesis by (simp add: ex1 ex2)
qed

section \<open>The serializer against its description\<close>

lemma special_distinct:
  "COMMA \<noteq> QUOTE" "COMMA \<noteq> NEWLINE" "QUOTE \<noteq> NEWLINE"
  "QUOTE \<noteq> COMMA" "NEWLINE \<noteq> COMMA" "NEWLINE \<noteq> QUOTE"
  by (simp_all add: COMMA_def QUOTE_def NEWLINE_def)

lemma replaceQuotes_doubleQuotes: "replaceQuotes cell = doubleQuotes cell"
  by (induction cell) (simp_all add: doubleQuotes_def)

lemma csvCell_csvCell_spec: "csvCell cell = csvCell_spec cell"
  by (simp add: csvCell_def csvCell_spec_def includes_str_def replaceQuotes_doubleQuotes Let_def)

lemma separated_Cons:
  "xs \<noteq> [] \<Longrightarrow> separated sep (x # xs) = x @ [sep] @ separated sep xs"
  by (cases xs) (simp_all add: separated_def butlast_append)

lemma join_separated: "join [sep] xs = separated sep xs"
proof (induction "[sep]" xs rule: join.induct)
  case 1
  show ?case by (simp add: separated_def)
next
  case (2 x)
  show ?case by (simp add: separated_def)
next
  case (3 x y ys)
  then show ?case by (simp add: separated_Cons)
qed

text \<open>
  C7. \<open>rowsToCSV\<close> is the serializer of the description: every quote of a cell is doubled,
  the cell is wrapped in quotes exactly when the escaped cell contains a comma, a quote or
  a newline and is left unquoted otherwise, the cells of a row are joined with commas and
  the rows with newlines, and no newline follows the last row.
\<close>

theorem rowsToCSV_meets_description: "rowsToCSV rows = rowsToCSV_spec rows"
proof -
  have "csvCell = csvCell_spec"
    by (rule ext) (rule csvCell_csvCell_spec)
  then have "(\<lambda>row. join [COMMA] (map csvCell row)) = (\<lambda>row. separated COMMA (map csvCell_spec row))"
    by (simp add: join_separated)
  then show ?thesis
    by (simp add: rowsToCSV_def rowsToCSV_spec_def join_separated)
qed

section \<open>Reading back what the serializer wrote\<close>

lemma foldr_addChar:
  "foldr addChar u ((f # fs) # rows) = ((u @ f) # fs) # rows"
  by (induction u) simp_all

lemma at_boundary:
  assumes "rest = [] \<or> hd rest = COMMA \<or> hd rest = NEWLINE"
  shows "readCSV InUnquoted rest = readCSV FieldStart rest"
    and "readCSV AfterQuote rest = readCSV FieldStart rest"
  using assms by (cases rest; auto simp: special_distinct)+

lemma read_unquoted:
  assumes "COMMA \<notin> set u" and "QUOTE \<notin> set u" and "NEWLINE \<notin> set u"
  shows "readCSV InUnquoted (u @ rest) = foldr addChar u (readCSV InUnquoted rest)"
  using assms by (induction u) auto

lemma read_unquoted_start:
  assumes "COMMA \<notin> set u" and "QUOTE \<notin> set u" and "NEWLINE \<notin> set u"
    and "rest = [] \<or> hd rest = COMMA \<or> hd rest = NEWLINE"
  shows "readCSV FieldStart (u @ rest) = foldr addChar u (readCSV FieldStart rest)"
proof (cases u)
  case Nil
  then show ?thesis by simp
next
  case (Cons c cs)
  with assms have "readCSV InUnquoted (cs @ rest) = foldr addChar cs (readCSV InUnquoted rest)"
    by (intro read_unquoted) auto
  with Cons assms show ?thesis by (auto simp: at_boundary)
qed

lemma read_quoted:
  "readCSV InQuoted (replaceQuotes cell @ QUOTE # rest) =
     foldr addChar cell (readCSV AfterQuote rest)"
  by (induction cell) simp_all

lemma replaceQuotes_no_quote: "QUOTE \<notin> set (replaceQuotes cell) \<Longrightarrow> replaceQuotes cell = cell"
  by (induction cell) (auto split: if_splits)

lemma read_cell:
  assumes "rest = [] \<or> hd rest = COMMA \<or> hd rest = NEWLINE"
  shows "readCSV FieldStart (csvCell cell @ rest) = foldr addChar cell (readCSV FieldStart rest)"
proof (cases "COMMA \<in> set (replaceQuotes cell) \<or> QUOTE \<in> set (replaceQuotes cell)
    \<or> NEWLINE \<in> set (replaceQuotes cell)")
  case True
  then have "csvCell cell @ rest = QUOTE # replaceQuotes cell @ QUOTE # rest"
    by (simp add: csvCell_def includes_str_def)
  then show ?thesis by (simp add: read_quoted at_boundary[OF assms])
next
  case False
  then have "QUOTE \<notin> set (replaceQuotes cell)" by blast
  then have plain: "replaceQuotes cell = cell" by (rule replaceQuotes_no_quote)
  with False have "csvCell cell = cell" by (simp add: csvCell_def includes_str_def)
  with False plain assms show ?thesis by (simp add: read_unquoted_start)
qed

lemma read_row:
  assumes "readCSV FieldStart rest = [[]] # after"
    and "rest = [] \<or> hd rest = COMMA \<or> hd rest = NEWLINE"
    and "cells \<noteq> []"
  shows "readCSV FieldStart (join [COMMA] (map csvCell cells) @ rest) = cells # after"
  using assms(3)
proof (induction cells rule: list_nonempty_induct)
  case (single c)
  show ?case by (simp add: read_cell[OF assms(2)] assms(1) foldr_addChar)
next
  case (cons c cs)
  then obtain d ds where cs: "cs = d # ds" by (cases cs) auto
  have "readCSV FieldStart (csvCell c @ COMMA # join [COMMA] (map csvCell cs) @ rest) =
        foldr addChar c (readCSV FieldStart (COMMA # join [COMMA] (map csvCell cs) @ rest))"
    by (rule read_cell) simp
  also have "\<dots> = foldr addChar c (newField (cs # after))"
    using cons.IH by (simp add: special_distinct)
  also have "\<dots> = (c # cs) # after" by (simp add: foldr_addChar)
  finally show ?case by (simp add: cs)
qed

lemma read_rows:
  assumes "rows \<noteq> []" and "[] \<notin> set rows"
  shows "readCSV FieldStart (rowsToCSV rows) = rows"
  using assms
proof (induction rows rule: list_nonempty_induct)
  case (single r)
  then have "r \<noteq> []" by auto
  from read_row[of "[]" "[]", OF _ _ this] show ?case by (simp add: rowsToCSV_def)
next
  case (cons r rs)
  then obtain q qs where rs: "rs = q # qs" by (cases rs) auto
  from cons have r: "r \<noteq> []" and ih: "readCSV FieldStart (rowsToCSV rs) = rs" by auto
  have "readCSV FieldStart (NEWLINE # rowsToCSV rs) = [[]] # rs"
    using ih by (simp add: newRow_def special_distinct)
  from read_row[OF this _ r] show ?case by (simp add: rowsToCSV_def rs)
qed

lemma parseLines_rows_nonempty: "[] \<notin> set (parseLines ls)"
  by (induction ls) (auto simp: Let_def)

text \<open>
  C8, as stated, fails: a row without cells and a row with one empty cell are written as
  the same text, so no reader can give back both; the reader of this theory gives the row
  with one empty cell.
\<close>

theorem empty_row_not_recovered:
  "rowsToCSV [[]] = rowsToCSV [[[]]] \<and> parseCSV (rowsToCSV [[]]) = [[[]]]"
  by (simp add: rowsToCSV_def csvCell_def includes_str_def parseCSV_def)

text \<open>
  C8, amended. For every list of rows that is not empty and whose rows each have at least
  one cell, reading the text of \<open>rowsToCSV\<close> with a reader that splits on commas and
  newlines and respects the quoting rule gives back the rows, whatever code units the cells
  contain (commas, quotes and newlines too). The rows that \<open>parseMarkdownTable\<close> returns
  have at least one cell each, so this covers every CSV text that a run writes.
\<close>

theorem csv_round_trip:
  "(rows \<noteq> [] \<and> [] \<notin> set rows \<longrightarrow> parseCSV (rowsToCSV rows) = rows)
   \<and> (parseMarkdownTable markdown \<noteq> [] \<longrightarrow>
        parseCSV (rowsToCSV (parseMarkdownTable markdown)) = parseMarkdownTable markdown)"
proof (intro conjI impI)
  assume "rows \<noteq> [] \<and> [] \<notin> set rows"
  then show "parseCSV (rowsToCSV rows) = rows" by (simp add: parseCSV_def read_rows)
next
  assume "parseMarkdownTable markdown \<noteq> []"
  moreover have "[] \<notin> set (parseMarkdownTable markdown)"
    unfolding parseMarkdownTable_def by (rule parseLines_rows_nonempty)
  ultimately show "parseCSV (rowsToCSV (parseMarkdownTable markdown)) = parseMarkdownTable markdown"
    by (simp add: parseCSV_def read_rows)
qed

theorem csv_round_trip_witness:
  "[[js ''a,b'', js ''say \"hi\"''], [js ''two\<newline>lines'', []]] \<noteq> []
   \<and> [] \<notin> set [[js ''a,b'', js ''say \"hi\"''], [js ''two\<newline>lines'', []]]
   \<and> parseCSV (rowsToCSV [[js ''a,b'', js ''say \"hi\"''], [js ''two\<newline>lines'', []]])
       = [[js ''a,b'', js ''say \"hi\"''], [js ''two\<newline>lines'', []]]
   \<and> parseMarkdownTable TABLE \<noteq> []
   \<and> parseCSV (rowsToCSV (parseMarkdownTable TABLE)) = parseMarkdownTable TABLE"
proof -
  let ?rows = "[[js ''a,b'', js ''say \"hi\"''], [js ''two\<newline>lines'', []]]"
  note inst = csv_round_trip[of ?rows TABLE]
  have a: "?rows \<noteq> [] \<and> [] \<notin> set ?rows" by simp
  have b: "parseMarkdownTable TABLE \<noteq> []" by (simp add: table_rows)
  from inst a b show ?thesis by blast
qed

end
